theory Spec2Isabelle
  imports Main "HOL-Library.Word" "HOL-Library.Monad_Syntax"
begin

unbundle bit_operations_syntax

section \<open>Data model of bootloader.c\<close>

type_synonym u8 = "8 word"
type_synonym u32 = "32 word"

definition BOOT_MAGIC :: u32 where
  "BOOT_MAGIC = 0xB007ABCD"

definition APP_START_ADDR :: u32 where
  "APP_START_ADDR = 0x00004000"

definition TIMEOUT_MS :: u32 where
  "TIMEOUT_MS = 3000"

definition MAX_APP_SIZE :: u32 where
  "MAX_APP_SIZE = 16 * 1024"

definition UART_TX_EMPTY :: u32 where
  "UART_TX_EMPTY = push_bit 1 1"

definition UART_RX_READY :: u32 where
  "UART_RX_READY = push_bit 0 1"

text \<open>
  \<^verbatim>\<open>firmware_header_t\<close>: five packed 32-bit fields, 20 bytes. The field \<^verbatim>\<open>size\<close> is
  called \<open>size_hdr\<close> here, since \<open>size\<close> is a constant of HOL.
\<close>

record firmware_header_t =
  magic :: u32
  version :: u32
  size_hdr :: u32
  crc32 :: u32
  reserved :: u32

definition sizeof_firmware_header_t :: u32 where
  "sizeof_firmware_header_t = 20"

text \<open>
  The machine state the bootloader runs on. The three memory-mapped registers are
  volatile: what a read returns is decided by the hardware, so the state holds, for each
  register, the values its successive reads will return. A read of a register whose list
  is used up has no result (\<open>None\<close>): the given stretch of hardware behaviour does not
  say how the run goes on. \<open>uart_tx\<close> collects the characters written to
  \<^verbatim>\<open>UART_TX_DATA\<close>. The remaining fields are the static variables of the file and the
  byte-addressed memory that holds the Application Region.
\<close>

record state =
  TIMER_VALUE :: "u32 list"
  UART_STATUS :: "u32 list"
  UART_RX_DATA :: "u32 list"
  uart_tx :: string
  crc32_table :: "u32 list"
  crc32_table_initialized :: bool
  last_dot :: u32
  memory :: "u32 \<Rightarrow> u8"

section \<open>CRC32 implementation\<close>

text \<open>One pass of the inner loop body of \<^verbatim>\<open>crc32_init_table\<close>.\<close>

definition crc32_shift :: "u32 \<Rightarrow> u32" where
  "crc32_shift crc =
     (if crc AND 1 \<noteq> 0 then drop_bit 1 crc XOR 0xEDB88320 else drop_bit 1 crc)"

text \<open>The outer loop body: \<^verbatim>\<open>crc = i\<close>, eight passes, \<^verbatim>\<open>crc32_table[i] = crc\<close>.\<close>

definition crc32_init_entry :: "nat \<Rightarrow> u32 list \<Rightarrow> u32 list" where
  "crc32_init_entry i tbl = tbl[i := fold (\<lambda>j crc. crc32_shift crc) [0..<8] (of_nat i)]"

definition crc32_init_table :: "state \<Rightarrow> state" where
  "crc32_init_table st =
     (if crc32_table_initialized st then st
      else st\<lparr>crc32_table := fold crc32_init_entry [0..<256] (crc32_table st),
              crc32_table_initialized := True\<rparr>)"

text \<open>The loop body shared by \<^verbatim>\<open>crc32_calculate\<close> and \<^verbatim>\<open>receive_firmware\<close>.\<close>

definition crc32_accumulate :: "u32 list \<Rightarrow> u32 \<Rightarrow> u8 \<Rightarrow> u32" where
  "crc32_accumulate tbl crc byte = tbl ! unat ((crc XOR ucast byte) AND 0xFF) XOR drop_bit 8 crc"

text \<open>
  \<^verbatim>\<open>crc32_calculate(data, length)\<close>: \<open>data\<close> is the pointer, read at the indices
  \<open>0 .. length - 1\<close>.
\<close>

definition crc32_calculate :: "(nat \<Rightarrow> u8) \<Rightarrow> u32 \<Rightarrow> state \<Rightarrow> u32 \<times> state" where
  "crc32_calculate data len st =
     (let st1 = crc32_init_table st;
          crc = fold (\<lambda>i crc. crc32_accumulate (crc32_table st1) crc (data i)) [0..<unat len] 0xFFFFFFFF
      in (NOT crc, st1))"

section \<open>Reference CRC32\<close>

text \<open>
  The bit-at-a-time reflected CRC32 for the polynomial 0xEDB88320, written from the
  specification: shift right by one, and XOR with the polynomial when the bit shifted out
  was set; a byte is XORed into the low end and followed by eight such steps; the register
  starts at 0xFFFFFFFF and is complemented at the end.
\<close>

definition crc32_bit_ref :: "u32 \<Rightarrow> u32" where
  "crc32_bit_ref c = (if bit c 0 then drop_bit 1 c XOR 0xEDB88320 else drop_bit 1 c)"

definition crc32_entry_ref :: "nat \<Rightarrow> u32" where
  "crc32_entry_ref i = (crc32_bit_ref ^^ 8) (of_nat i)"

definition crc32_byte_ref :: "u32 \<Rightarrow> u8 \<Rightarrow> u32" where
  "crc32_byte_ref c b = (crc32_bit_ref ^^ 8) (c XOR ucast b)"

definition crc32_ref :: "u8 list \<Rightarrow> u32" where
  "crc32_ref bs = NOT (foldl crc32_byte_ref 0xFFFFFFFF bs)"

text \<open>
  The static table is correct whenever its flag says it has been built. The flag starts
  out false, and \<^verbatim>\<open>crc32_init_table\<close> is the only writer of both.
\<close>

definition table_inv :: "state \<Rightarrow> bool" where
  "table_inv st \<longleftrightarrow>
     length (crc32_table st) = 256 \<and>
     (crc32_table_initialized st \<longrightarrow> crc32_table st = map crc32_entry_ref [0..<256])"

section \<open>Basic I/O functions\<close>

text \<open>The accesses to the volatile registers.\<close>

definition read_UART_STATUS :: "state \<Rightarrow> (u32 \<times> state) option" where
  "read_UART_STATUS st =
     (case UART_STATUS st of [] \<Rightarrow> None | v # vs \<Rightarrow> Some (v, st\<lparr>UART_STATUS := vs\<rparr>))"

definition read_TIMER_VALUE :: "state \<Rightarrow> (u32 \<times> state) option" where
  "read_TIMER_VALUE st =
     (case TIMER_VALUE st of [] \<Rightarrow> None | v # vs \<Rightarrow> Some (v, st\<lparr>TIMER_VALUE := vs\<rparr>))"

text \<open>A read of \<^verbatim>\<open>UART_TX_DATA\<close>, which is the receive register as well.\<close>

definition read_UART_TX_DATA :: "state \<Rightarrow> (u32 \<times> state) option" where
  "read_UART_TX_DATA st =
     (case UART_RX_DATA st of [] \<Rightarrow> None | v # vs \<Rightarrow> Some (v, st\<lparr>UART_RX_DATA := vs\<rparr>))"

definition write_UART_TX_DATA :: "char \<Rightarrow> state \<Rightarrow> state" where
  "write_UART_TX_DATA c st = st\<lparr>uart_tx := uart_tx st @ [c]\<rparr>"

lemma read_UART_STATUS_shorter:
  "read_UART_STATUS st = Some (v, st1) \<Longrightarrow> length (UART_STATUS st1) < length (UART_STATUS st)"
  by (auto simp: read_UART_STATUS_def split: list.splits)

lemma read_TIMER_VALUE_shorter:
  "read_TIMER_VALUE st = Some (v, st1) \<Longrightarrow> length (TIMER_VALUE st1) < length (TIMER_VALUE st)"
  by (auto simp: read_TIMER_VALUE_def split: list.splits)

declare Option.bind_cong [fundef_cong]

function uart_putc :: "char \<Rightarrow> state \<Rightarrow> state option" where
  "uart_putc c st =
     do { (s, st1) \<leftarrow> read_UART_STATUS st;
          if s AND UART_TX_EMPTY = 0 then uart_putc c st1
          else Some (write_UART_TX_DATA c st1) }"
  by pat_completeness auto
termination
  by (relation "measure (\<lambda>(c, st). length (UART_STATUS st))")
     (auto dest: read_UART_STATUS_shorter)

declare uart_putc.simps [simp del]

fun uart_puts :: "string \<Rightarrow> state \<Rightarrow> state option" where
  "uart_puts [] st = Some st"
| "uart_puts (c # str) st = do { st1 \<leftarrow> uart_putc c st; uart_puts str st1 }"

declare uart_puts.simps [simp del]

function uart_put_hex_loop :: "int \<Rightarrow> u32 \<Rightarrow> state \<Rightarrow> state option" where
  "uart_put_hex_loop i val st =
     (if i \<ge> 0 then
        let nibble = (ucast (drop_bit (nat i) val AND 0xF) :: u8) in
        do { st1 \<leftarrow> (if nibble < 10 then uart_putc (char_of (of_char CHR ''0'' + unat nibble)) st
                     else uart_putc (char_of (of_char CHR ''A'' + unat nibble - 10)) st);
             uart_put_hex_loop (i - 4) val st1 }
      else Some st)"
  by pat_completeness auto
termination
  by (relation "measure (\<lambda>(i, val, st). nat (i + 4))") auto

declare uart_put_hex_loop.simps [simp del]

definition uart_put_hex :: "u32 \<Rightarrow> state \<Rightarrow> state option" where
  "uart_put_hex val st = do { st1 \<leftarrow> uart_puts ''0x'' st; uart_put_hex_loop 28 val st1 }"

definition uart_rx_ready :: "state \<Rightarrow> (bool \<times> state) option" where
  "uart_rx_ready st = do { (s, st1) \<leftarrow> read_UART_STATUS st; Some (s AND UART_RX_READY \<noteq> 0, st1) }"

lemma uart_rx_ready_shorter:
  "uart_rx_ready st = Some (r, st1) \<Longrightarrow> length (UART_STATUS st1) < length (UART_STATUS st)"
  by (auto simp: uart_rx_ready_def Option.bind_eq_Some_conv dest: read_UART_STATUS_shorter)

text \<open>\<^verbatim>\<open>uart_getc\<close> returns a \<^verbatim>\<open>char\<close>: the low byte of the register.\<close>

function uart_getc :: "state \<Rightarrow> (u8 \<times> state) option" where
  "uart_getc st =
     do { (ready, st1) \<leftarrow> uart_rx_ready st;
          if \<not> ready then uart_getc st1
          else do { (v, st2) \<leftarrow> read_UART_TX_DATA st1; Some (ucast v, st2) } }"
  by pat_completeness auto
termination
  by (relation "measure (\<lambda>st. length (UART_STATUS st))")
     (auto dest: uart_rx_ready_shorter)

declare uart_getc.simps [simp del]

definition get_time_ms :: "state \<Rightarrow> (u32 \<times> state) option" where
  "get_time_ms st = do { (v, st1) \<leftarrow> read_TIMER_VALUE st; Some (v div 50000, st1) }"

lemma get_time_ms_shorter:
  "get_time_ms st = Some (t, st1) \<Longrightarrow> length (TIMER_VALUE st1) < length (TIMER_VALUE st)"
  by (auto simp: get_time_ms_def Option.bind_eq_Some_conv dest: read_TIMER_VALUE_shorter)

function delay_ms_loop :: "u32 \<Rightarrow> u32 \<Rightarrow> state \<Rightarrow> state option" where
  "delay_ms_loop start ms st =
     do { (now, st1) \<leftarrow> get_time_ms st;
          if now - start < ms then delay_ms_loop start ms st1 else Some st1 }"
  by pat_completeness auto
termination
  by (relation "measure (\<lambda>(start, ms, st). length (TIMER_VALUE st))")
     (auto dest: get_time_ms_shorter)

declare delay_ms_loop.simps [simp del]

definition delay_ms :: "u32 \<Rightarrow> state \<Rightarrow> state option" where
  "delay_ms ms st = do { (start, st1) \<leftarrow> get_time_ms st; delay_ms_loop start ms st1 }"

lemma read_UART_STATUS_TIMER:
  "read_UART_STATUS st = Some (v, st1) \<Longrightarrow> TIMER_VALUE st1 = TIMER_VALUE st"
  by (auto simp: read_UART_STATUS_def split: list.splits)

lemma uart_rx_ready_TIMER:
  "uart_rx_ready st = Some (r, st1) \<Longrightarrow> TIMER_VALUE st1 = TIMER_VALUE st"
  by (auto simp: uart_rx_ready_def Option.bind_eq_Some_conv dest: read_UART_STATUS_TIMER)

lemma uart_getc_TIMER:
  "uart_getc st = Some (c, st1) \<Longrightarrow> TIMER_VALUE st1 = TIMER_VALUE st"
proof (induction st rule: uart_getc.induct)
  case (1 st)
  from "1.prems" obtain ready st0 where r: "uart_rx_ready st = Some (ready, st0)"
    by (subst (asm) uart_getc.simps) (auto simp: Option.bind_eq_Some_conv)
  show ?case
  proof (cases ready)
    case True
    with "1.prems" r show ?thesis
      by (subst (asm) uart_getc.simps)
         (auto simp: Option.bind_eq_Some_conv read_UART_TX_DATA_def
               dest: uart_rx_ready_TIMER split: list.splits)
  next
    case False
    with "1.prems" r have "uart_getc st0 = Some (c, st1)"
      by (subst (asm) uart_getc.simps) simp
    with "1.IH" [of "(ready, st0)" ready st0] r False uart_rx_ready_TIMER [OF r]
    show ?thesis by simp
  qed
qed

lemma uart_putc_TIMER:
  "uart_putc c st = Some st1 \<Longrightarrow> TIMER_VALUE st1 = TIMER_VALUE st"
proof (induction c st rule: uart_putc.induct)
  case (1 c st)
  from "1.prems" obtain s st0 where r: "read_UART_STATUS st = Some (s, st0)"
    by (subst (asm) uart_putc.simps) (auto simp: Option.bind_eq_Some_conv)
  show ?case
  proof (cases "s AND UART_TX_EMPTY = 0")
    case True
    with "1.prems" r have "uart_putc c st0 = Some st1"
      by (subst (asm) uart_putc.simps) simp
    with "1.IH" [of "(s, st0)" s st0] r True read_UART_STATUS_TIMER [OF r]
    show ?thesis by simp
  next
    case False
    with "1.prems" r read_UART_STATUS_TIMER [OF r] show ?thesis
      by (subst (asm) uart_putc.simps) (auto simp: write_UART_TX_DATA_def)
  qed
qed

section \<open>UART protocol functions\<close>

text \<open>
  The loop of \<^verbatim>\<open>uart_receive_bytes\<close>. The buffer is the caller's array; a write past its
  end is undefined in C and has no result here.
\<close>

function uart_receive_loop ::
  "u8 list \<Rightarrow> u32 \<Rightarrow> u32 \<Rightarrow> u32 \<Rightarrow> u32 \<Rightarrow> state \<Rightarrow> (bool \<times> u8 list \<times> state) option" where
  "uart_receive_loop buffer len timeout_ms start_time received st =
     (if received < len then
        do { (now, st1) \<leftarrow> get_time_ms st;
             if now - start_time > timeout_ms then Some (False, buffer, st1)
             else do { (ready, st2) \<leftarrow> uart_rx_ready st1;
                       if ready then
                         do { (c, st3) \<leftarrow> uart_getc st2;
                              if unat received < length buffer
                              then uart_receive_loop (buffer[unat received := c]) len timeout_ms
                                     start_time (received + 1) st3
                              else None }
                       else uart_receive_loop buffer len timeout_ms start_time received st2 } }
      else Some (True, buffer, st))"
  by pat_completeness auto
termination
  by (relation "measure (\<lambda>(buffer, len, timeout_ms, start_time, received, st). length (TIMER_VALUE st))")
     (auto dest!: get_time_ms_shorter uart_rx_ready_TIMER uart_getc_TIMER)

declare uart_receive_loop.simps [simp del]

definition uart_receive_bytes ::
  "u8 list \<Rightarrow> u32 \<Rightarrow> u32 \<Rightarrow> state \<Rightarrow> (bool \<times> u8 list \<times> state) option" where
  "uart_receive_bytes buffer len timeout_ms st =
     do { (start_time, st1) \<leftarrow> get_time_ms st;
          uart_receive_loop buffer len timeout_ms start_time 0 st1 }"

section \<open>Application management\<close>

definition CRLF :: string where
  "CRLF = [CHR 0x0D, CHR 0x0A]"

text \<open>A little-endian 32-bit load, as the RV32 core performs it.\<close>

definition read_u32 :: "(u32 \<Rightarrow> u8) \<Rightarrow> u32 \<Rightarrow> u32" where
  "read_u32 mem a =
     ucast (mem a) OR push_bit 8 (ucast (mem (a + 1))) OR
     push_bit 16 (ucast (mem (a + 2))) OR push_bit 24 (ucast (mem (a + 3)))"

text \<open>The fields of a \<^verbatim>\<open>firmware_header_t\<close> that lies at address \<open>a\<close>.\<close>

definition read_header :: "(u32 \<Rightarrow> u8) \<Rightarrow> u32 \<Rightarrow> firmware_header_t" where
  "read_header mem a =
     \<lparr>magic = read_u32 mem a, version = read_u32 mem (a + 4), size_hdr = read_u32 mem (a + 8),
      crc32 = read_u32 mem (a + 12), reserved = read_u32 mem (a + 16)\<rparr>"

definition verify_application :: "u32 \<Rightarrow> state \<Rightarrow> (bool \<times> state) option" where
  "verify_application addr st =
     (let header = read_header (memory st) addr in
      if magic header \<noteq> BOOT_MAGIC then
        do { st1 \<leftarrow> uart_puts (''No valid application (bad magic)'' @ CRLF) st;
             Some (False, st1) }
      else if size_hdr header > MAX_APP_SIZE then
        do { st1 \<leftarrow> uart_puts (''Application too large'' @ CRLF) st;
             Some (False, st1) }
      else
        let app_data = (\<lambda>i. memory st (addr + sizeof_firmware_header_t + of_nat i));
            (calc_crc, st1) = crc32_calculate app_data (size_hdr header - sizeof_firmware_header_t) st
        in if calc_crc \<noteq> crc32 header then
             do { st2 \<leftarrow> uart_puts ''CRC check failed - Expected: '' st1;
                  st3 \<leftarrow> uart_put_hex (crc32 header) st2;
                  st4 \<leftarrow> uart_puts '', Calculated: '' st3;
                  st5 \<leftarrow> uart_put_hex calc_crc st4;
                  st6 \<leftarrow> uart_puts CRLF st5;
                  Some (False, st6) }
           else Some (True, st1))"


section \<open>Firmware update functions\<close>

text \<open>The CRC update loop over one received chunk.\<close>

definition crc32_update_chunk :: "u32 list \<Rightarrow> u32 \<Rightarrow> u8 list \<Rightarrow> u32 \<Rightarrow> u32" where
  "crc32_update_chunk tbl crc buffer chunk =
     fold (\<lambda>i crc. crc32_accumulate tbl crc (buffer ! i)) [0..<unat chunk] crc"

lemma chunk_decreases:
  fixes remaining :: u32
  assumes "0 < remaining"
  shows "unat (remaining - (if 128 < remaining then 128 else remaining)) < unat remaining"
proof (cases "128 < remaining")
  case True
  then have "unat (128 :: u32) < unat remaining" by (simp only: word_less_nat_alt)
  then have "unat (remaining - 128) = unat remaining - 128"
    by (simp add: unat_sub word_le_nat_alt)
  with \<open>unat (128 :: u32) < unat remaining\<close> True show ?thesis by simp
next
  case False
  with assms show ?thesis by (simp add: word_less_nat_alt)
qed

text \<open>
  The \<^verbatim>\<open>while (remaining > 0)\<close> loop of \<^verbatim>\<open>receive_firmware\<close>. It ends with \<open>False\<close> where
  the source returns \<^verbatim>\<open>false\<close> from inside the loop.
\<close>

function receive_payload :: "u32 \<Rightarrow> u32 \<Rightarrow> u8 list \<Rightarrow> state \<Rightarrow> (bool \<times> u32 \<times> state) option" where
  "receive_payload remaining crc buffer st =
     (if remaining > 0 then
        let chunk = (if remaining > 128 then 128 else remaining) in
        do { (ok, buffer1, st1) \<leftarrow> uart_receive_bytes buffer chunk 5000 st;
             if \<not> ok then
               do { st2 \<leftarrow> uart_puts (CRLF @ ''ERROR: Data timeout'' @ CRLF) st1;
                    Some (False, crc, st2) }
             else
               do { st2 \<leftarrow> uart_putc CHR ''.'' st1;
                    receive_payload (remaining - chunk)
                      (crc32_update_chunk (crc32_table st1) crc buffer1 chunk) buffer1 st2 } }
      else Some (True, crc, st))"
  by pat_completeness auto
termination
  by (relation "measure (\<lambda>(remaining, crc, buffer, st). unat remaining)")
     (auto simp: chunk_decreases)

declare receive_payload.simps [simp del]

text \<open>
  The bytes of the local \<^verbatim>\<open>header\<close>, read as the struct they are cast from.
\<close>

definition header_of_bytes :: "u8 list \<Rightarrow> firmware_header_t" where
  "header_of_bytes bs = read_header (\<lambda>a. bs ! unat a) 0"

text \<open>
  \<^verbatim>\<open>receive_firmware\<close>. The locals \<^verbatim>\<open>header\<close> and \<^verbatim>\<open>buffer\<close> are uninitialised in the
  source; they start out as zeros here, and no byte of either is read before a receive
  has written it. The local \<^verbatim>\<open>addr\<close> is never used.
\<close>

definition receive_firmware :: "state \<Rightarrow> (bool \<times> state) option" where
  "receive_firmware st =
     do { st \<leftarrow> uart_puts (''Waiting for firmware header (30s timeout)...'' @ CRLF) st;
          (ok, hbuf, st) \<leftarrow> uart_receive_bytes (replicate 20 0) sizeof_firmware_header_t 30000 st;
          if \<not> ok then
            do { st \<leftarrow> uart_puts (''ERROR: Header timeout'' @ CRLF) st; Some (False, st) }
          else
            let header = header_of_bytes hbuf in
            if magic header \<noteq> BOOT_MAGIC then
              do { st \<leftarrow> uart_puts ''ERROR: Invalid magic - '' st;
                   st \<leftarrow> uart_put_hex (magic header) st;
                   st \<leftarrow> uart_puts CRLF st;
                   Some (False, st) }
            else if size_hdr header > MAX_APP_SIZE then
              do { st \<leftarrow> uart_puts (''ERROR: Firmware too large'' @ CRLF) st; Some (False, st) }
            else
              do { st \<leftarrow> uart_puts ''Firmware version: '' st;
                   st \<leftarrow> uart_put_hex (version header) st;
                   st \<leftarrow> uart_puts (CRLF @ ''Size: '') st;
                   st \<leftarrow> uart_put_hex (size_hdr header) st;
                   st \<leftarrow> uart_puts ('' bytes'' @ CRLF) st;
                   st \<leftarrow> uart_puts (''Simulating flash programming...'' @ CRLF) st;
                   st \<leftarrow> uart_puts ''Programming'' st;
                   (ok, crc, st) \<leftarrow>
                     receive_payload (size_hdr header) 0xFFFFFFFF (replicate 128 0)
                       (crc32_init_table st);
                   if \<not> ok then Some (False, st)
                   else
                     do { st \<leftarrow> uart_puts ('' done'' @ CRLF) st;
                          if NOT crc \<noteq> crc32 header then
                            do { st \<leftarrow> uart_puts (''ERROR: CRC mismatch!'' @ CRLF) st;
                                 Some (False, st) }
                          else
                            do { st \<leftarrow> uart_puts (''Firmware update successful!'' @ CRLF) st;
                                 st \<leftarrow> uart_puts
                                   (''Note: This is a simulation - actual flash programming would occur here''
                                    @ CRLF) st;
                                 Some (True, st) } } } }"

text \<open>The polling loop of \<^verbatim>\<open>check_for_update_request\<close>.\<close>

function check_for_update_loop :: "u32 \<Rightarrow> state \<Rightarrow> (bool \<times> state) option" where
  "check_for_update_loop start st =
     do { (now, st1) \<leftarrow> get_time_ms st;
          if now - start < TIMEOUT_MS then
            do { (ready, st2) \<leftarrow> uart_rx_ready st1;
                 if ready then
                   do { (c, st3) \<leftarrow> uart_getc st2;
                        if c = of_char CHR ''U'' \<or> c = of_char CHR ''u'' then Some (True, st3)
                        else Some (False, st3) }
                 else
                   do { (now2, st3) \<leftarrow> get_time_ms st2;
                        let elapsed = now2 - start in
                        if elapsed div 500 > last_dot st3 then
                          do { st4 \<leftarrow> uart_putc CHR ''.'' st3;
                               check_for_update_loop start (st4\<lparr>last_dot := last_dot st4 + 1\<rparr>) }
                        else check_for_update_loop start st3 } }
          else
            do { st2 \<leftarrow> uart_puts CRLF st1; Some (False, st2) } }"
  by pat_completeness auto
termination
  by (relation "measure (\<lambda>(start, st). length (TIMER_VALUE st))")
     (auto dest!: get_time_ms_shorter uart_rx_ready_TIMER uart_putc_TIMER)

declare check_for_update_loop.simps [simp del]


section \<open>Main bootloader function\<close>







section \<open>States after reset\<close>

text \<open>
  The state in which the bootloader starts: the statics as their initialisers leave them,
  nothing sent yet, and the given register behaviour and memory contents.
\<close>

definition reset_state :: "u32 list \<Rightarrow> u32 list \<Rightarrow> u32 list \<Rightarrow> (u32 \<Rightarrow> u8) \<Rightarrow> state" where
  "reset_state timer status rx mem =
     \<lparr>TIMER_VALUE = timer, UART_STATUS = status, UART_RX_DATA = rx, uart_tx = [],
      crc32_table = replicate 256 0, crc32_table_initialized = False, last_dot = 0,
      memory = mem\<rparr>"

text \<open>A memory that holds the given bytes from address \<open>base\<close> on and zeros elsewhere.\<close>

definition memory_of :: "u32 \<Rightarrow> u8 list \<Rightarrow> u32 \<Rightarrow> u8" where
  "memory_of base bs a = (if unat (a - base) < length bs then bs ! unat (a - base) else 0)"

text \<open>The four bytes of a 32-bit word, least significant first.\<close>

definition bytes_of_u32 :: "u32 \<Rightarrow> u8 list" where
  "bytes_of_u32 w = [ucast w, ucast (drop_bit 8 w), ucast (drop_bit 16 w), ucast (drop_bit 24 w)]"

definition bytes_of_header :: "firmware_header_t \<Rightarrow> u8 list" where
  "bytes_of_header h =
     bytes_of_u32 (magic h) @ bytes_of_u32 (version h) @ bytes_of_u32 (size_hdr h) @
     bytes_of_u32 (crc32 h) @ bytes_of_u32 (reserved h)"

section \<open>Auxiliary notions\<close>

text \<open>
  What a stretch of input and output does to the state: \<open>k\<close> values are taken from the
  receive register, \<open>out\<close> is sent, and the memory and the CRC table stay as they are.
\<close>

definition io_step :: "nat \<Rightarrow> string \<Rightarrow> state \<Rightarrow> state \<Rightarrow> bool" where
  "io_step k out st st' \<longleftrightarrow>
     k \<le> length (UART_RX_DATA st) \<and> UART_RX_DATA st' = drop k (UART_RX_DATA st) \<and>
     uart_tx st' = uart_tx st @ out \<and> memory st' = memory st \<and>
     crc32_table st' = crc32_table st \<and>
     crc32_table_initialized st' = crc32_table_initialized st"

text \<open>The character \<^verbatim>\<open>uart_put_hex\<close> sends for a nibble, and the eight it sends for a word.\<close>

definition hex_digit :: "u8 \<Rightarrow> char" where
  "hex_digit nibble =
     (if nibble < 10 then char_of (of_char CHR ''0'' + unat nibble)
      else char_of (of_char CHR ''A'' + unat nibble - 10))"

definition hex_string :: "u32 \<Rightarrow> string" where
  "hex_string val = map (\<lambda>i. hex_digit (ucast (drop_bit i val AND 0xF))) [28, 24, 20, 16, 12, 8, 4, 0]"

text \<open>
  The bytes that \<^verbatim>\<open>verify_application\<close> hands to \<^verbatim>\<open>crc32_calculate\<close>: \<open>len\<close> bytes from
  the end of the header at \<open>addr\<close> on.
\<close>

definition payload_bytes :: "(u32 \<Rightarrow> u8) \<Rightarrow> u32 \<Rightarrow> u32 \<Rightarrow> u8 list" where
  "payload_bytes mem addr len =
     map (\<lambda>i. mem (addr + sizeof_firmware_header_t + of_nat i)) [0..<unat len]"

text \<open>The first line an update session sends.\<close>

definition waiting_msg :: string where
  "waiting_msg = ''Waiting for firmware header (30s timeout)...'' @ CRLF"

section \<open>The table and the table-driven CRC\<close>

lemma crc32_shift_eq_ref: "crc32_shift = crc32_bit_ref"
proof
  fix c :: u32
  have "(c AND 1 \<noteq> 0) = bit c 0"
    by (simp add: and_one_eq bit_0 odd_iff_mod_2_eq_one)
  then show "crc32_shift c = crc32_bit_ref c"
    by (simp add: crc32_shift_def crc32_bit_ref_def)
qed

lemma fold_const_funpow: "fold (\<lambda>j. f) xs x = (f ^^ length xs) x"
  by (induction xs arbitrary: x) (simp_all add: funpow_swap1)

lemma crc32_init_entry_length: "length (crc32_init_entry i tbl) = length tbl"
  by (simp add: crc32_init_entry_def)

lemma crc32_init_entry_ref:
  "crc32_init_entry i tbl = tbl[i := crc32_entry_ref i]"
  by (simp add: crc32_init_entry_def crc32_entry_ref_def crc32_shift_eq_ref fold_const_funpow)

lemma fold_init_entry_length:
  "length (fold crc32_init_entry is tbl) = length tbl"
  by (induction "is" arbitrary: tbl) (simp_all add: crc32_init_entry_length)

lemma fold_init_entry_nth:
  "n \<le> length tbl \<Longrightarrow> i < length tbl \<Longrightarrow>
   fold crc32_init_entry [0..<n] tbl ! i = (if i < n then crc32_entry_ref i else tbl ! i)"
proof (induction n)
  case 0
  then show ?case by simp
next
  case (Suc n)
  have len: "length (fold crc32_init_entry [0..<n] tbl) = length tbl"
    by (rule fold_init_entry_length)
  have "fold crc32_init_entry [0..<Suc n] tbl ! i
        = (fold crc32_init_entry [0..<n] tbl)[n := crc32_entry_ref n] ! i"
    by (simp add: crc32_init_entry_ref)
  also have "\<dots> = (if i = n then crc32_entry_ref n else fold crc32_init_entry [0..<n] tbl ! i)"
    using Suc.prems len by (simp add: nth_list_update)
  also have "\<dots> = (if i < Suc n then crc32_entry_ref i else tbl ! i)"
    using Suc by (auto simp: less_Suc_eq)
  finally show ?case .
qed

lemma fold_init_entry_table:
  assumes "length tbl = 256"
  shows "fold crc32_init_entry [0..<256] tbl = map crc32_entry_ref [0..<256]"
proof (rule nth_equalityI)
  show "length (fold crc32_init_entry [0..<256] tbl) = length (map crc32_entry_ref [0..<256])"
    using assms by (simp add: fold_init_entry_length)
next
  fix i assume "i < length (fold crc32_init_entry [0..<256] tbl)"
  then have i: "i < 256" using assms by (simp add: fold_init_entry_length)
  then show "fold crc32_init_entry [0..<256] tbl ! i = map crc32_entry_ref [0..<256] ! i"
    using fold_init_entry_nth [of 256 tbl i] assms by simp
qed

lemma crc32_init_table_table:
  assumes "table_inv st"
  shows "crc32_table (crc32_init_table st) = map crc32_entry_ref [0..<256]"
proof (cases "crc32_table_initialized st")
  case True
  with assms show ?thesis by (simp add: table_inv_def crc32_init_table_def)
next
  case False
  have "length (crc32_table st) = 256" using assms by (simp add: table_inv_def)
  from fold_init_entry_table [OF this] False show ?thesis
    by (simp add: crc32_init_table_def)
qed

lemma crc32_init_table_inv:
  assumes "table_inv st"
  shows "table_inv (crc32_init_table st)"
  unfolding table_inv_def
  using crc32_init_table_table [OF assms] by (simp add: crc32_init_table_def)

lemma crc32_init_table_initialized:
  "crc32_table_initialized (crc32_init_table st)"
  by (simp add: crc32_init_table_def)

lemma crc32_bit_ref_xor:
  "crc32_bit_ref (a XOR b) = crc32_bit_ref a XOR crc32_bit_ref b"
  by (simp add: crc32_bit_ref_def bit_xor_iff ac_simps)

lemma crc32_bit_ref_funpow_xor:
  "(crc32_bit_ref ^^ n) (a XOR b) = (crc32_bit_ref ^^ n) a XOR (crc32_bit_ref ^^ n) b"
  by (induction n) (simp_all add: crc32_bit_ref_xor)

lemma crc32_bit_ref_funpow_high:
  "take_bit n y = 0 \<Longrightarrow> (crc32_bit_ref ^^ n) y = drop_bit n y"
proof (induction n)
  case 0
  then show ?case by simp
next
  case (Suc n)
  have nb: "\<not> bit y k" if "k \<le> n" for k
  proof -
    have "bit (take_bit (Suc n) y) k = bit y k" using that by (simp add: bit_take_bit_iff)
    then show ?thesis using Suc.prems by simp
  qed
  have tb: "take_bit n y = 0"
    by (rule bit_eqI) (simp add: bit_take_bit_iff nb)
  have "(crc32_bit_ref ^^ Suc n) y = crc32_bit_ref (drop_bit n y)"
    using Suc.IH [OF tb] by simp
  also have "\<dots> = drop_bit 1 (drop_bit n y)"
    using nb [of n] by (simp add: crc32_bit_ref_def bit_drop_bit_eq)
  finally show ?case by simp
qed


lemma mask8: "(0xFF :: u32) = mask 8"
  by (simp add: mask_eq_exp_minus_1)

lemma split_low_byte:
  fixes x :: u32
  shows "(x AND 0xFF) XOR push_bit 8 (drop_bit 8 x) = x"
  unfolding mask8
  by (rule bit_eqI) (auto simp: bit_xor_iff bit_and_iff bit_mask_iff bit_push_bit_iff bit_drop_bit_eq)

lemma low_byte_less: "unat ((x :: u32) AND 0xFF) < 256"
proof -
  have "x AND 0xFF \<le> 0xFF" by (rule word_and_le1)
  then have "unat (x AND 0xFF) \<le> unat (0xFF :: u32)" by (simp only: word_le_nat_alt)
  then show ?thesis by simp
qed

lemma drop_bit8_xor_byte: "drop_bit 8 ((crc :: u32) XOR ucast (byte :: u8)) = drop_bit 8 crc"
  by (rule bit_eqI) (auto simp: bit_xor_iff bit_drop_bit_eq bit_ucast_iff dest: bit_imp_le_length)

lemma crc32_accumulate_ref:
  assumes "tbl = map crc32_entry_ref [0..<256]"
  shows "crc32_accumulate tbl crc byte = crc32_byte_ref crc byte"
proof -
  define x where "x = crc XOR ucast byte"
  have idx: "tbl ! unat (x AND 0xFF) = (crc32_bit_ref ^^ 8) (x AND 0xFF)"
    using low_byte_less [of x] assms by (simp add: crc32_entry_ref_def)
  have hi: "drop_bit 8 x = drop_bit 8 crc"
    unfolding x_def by (rule drop_bit8_xor_byte)
  have "(crc32_bit_ref ^^ 8) x
        = (crc32_bit_ref ^^ 8) ((x AND 0xFF) XOR push_bit 8 (drop_bit 8 x))"
    by (simp only: split_low_byte)
  also have "\<dots> = (crc32_bit_ref ^^ 8) (x AND 0xFF) XOR (crc32_bit_ref ^^ 8) (push_bit 8 (drop_bit 8 x))"
    by (rule crc32_bit_ref_funpow_xor)
  also have "(crc32_bit_ref ^^ 8) (push_bit 8 (drop_bit 8 x)) = drop_bit 8 (push_bit 8 (drop_bit 8 x))"
    by (rule crc32_bit_ref_funpow_high) (simp add: take_bit_push_bit)
  also have "\<dots> = drop_bit 8 x"
    by (rule bit_eqI) (auto simp: bit_push_bit_iff bit_drop_bit_eq dest: bit_imp_le_length)
  finally have "(crc32_bit_ref ^^ 8) x = tbl ! unat (x AND 0xFF) XOR drop_bit 8 crc"
    by (simp only: idx hi)
  then show ?thesis
    by (simp only: crc32_accumulate_def crc32_byte_ref_def x_def)
qed

lemma fold_crc32_accumulate_foldl:
  "fold (\<lambda>i crc. crc32_accumulate tbl crc (data i)) is crc = foldl (crc32_accumulate tbl) crc (map data is)"
  by (induction "is" arbitrary: crc) simp_all

lemma foldl_crc32_accumulate_ref:
  assumes "tbl = map crc32_entry_ref [0..<256]"
  shows "foldl (crc32_accumulate tbl) crc bs = foldl crc32_byte_ref crc bs"
  by (induction bs arbitrary: crc) (simp_all add: crc32_accumulate_ref [OF assms])

lemma crc32_calculate_foldl:
  "crc32_calculate data len st =
     (NOT (foldl (crc32_accumulate (crc32_table (crc32_init_table st))) 0xFFFFFFFF
             (map data [0..<unat len])),
      crc32_init_table st)"
  by (simp add: crc32_calculate_def Let_def fold_crc32_accumulate_foldl)

lemma crc32_calculate_ref:
  assumes "table_inv st"
  shows "crc32_calculate data len st = (crc32_ref (map data [0..<unat len]), crc32_init_table st)"
  by (simp add: crc32_calculate_foldl crc32_ref_def
        foldl_crc32_accumulate_ref [OF crc32_init_table_table [OF assms]])


lemma funpow8: "(f ^^ 8) x = f (f (f (f (f (f (f (f x)))))))"
  by (simp add: eval_nat_numeral)

lemmas crc32_ref_eval = crc32_ref_def crc32_byte_ref_def crc32_bit_ref_def funpow8

lemma table_inv_reset: "table_inv (reset_state timer status rx mem)"
  by (simp add: table_inv_def reset_state_def)

section \<open>What the I/O functions change\<close>

lemma io_step_refl: "io_step 0 [] st st"
  by (simp add: io_step_def)

lemma io_step_trans:
  "io_step k1 o1 a b \<Longrightarrow> io_step k2 o2 b c \<Longrightarrow> io_step (k1 + k2) (o1 @ o2) a c"
  by (auto simp: io_step_def add.commute)

lemma read_UART_STATUS_io:
  "read_UART_STATUS st = Some (v, st1) \<Longrightarrow> io_step 0 [] st st1"
  by (auto simp: read_UART_STATUS_def io_step_def split: list.splits)

lemma read_TIMER_VALUE_io:
  "read_TIMER_VALUE st = Some (v, st1) \<Longrightarrow> io_step 0 [] st st1"
  by (auto simp: read_TIMER_VALUE_def io_step_def split: list.splits)

lemma read_UART_TX_DATA_io:
  "read_UART_TX_DATA st = Some (v, st1) \<Longrightarrow>
   io_step 1 [] st st1 \<and> v = hd (UART_RX_DATA st)"
  by (auto simp: read_UART_TX_DATA_def io_step_def split: list.splits)

lemma uart_putc_io:
  "uart_putc c st = Some st1 \<Longrightarrow> io_step 0 [c] st st1"
proof (induction c st rule: uart_putc.induct)
  case (1 c st)
  from "1.prems" obtain s st0 where r: "read_UART_STATUS st = Some (s, st0)"
    by (subst (asm) uart_putc.simps) (auto simp: Option.bind_eq_Some_conv)
  note s0 = read_UART_STATUS_io [OF r]
  show ?case
  proof (cases "s AND UART_TX_EMPTY = 0")
    case True
    with "1.prems" r have "uart_putc c st0 = Some st1"
      by (subst (asm) uart_putc.simps) simp
    with "1.IH" [of "(s, st0)" s st0] r True have "io_step 0 [c] st0 st1" by simp
    with io_step_trans [OF s0 this] show ?thesis by simp
  next
    case False
    with "1.prems" r have "st1 = write_UART_TX_DATA c st0"
      by (subst (asm) uart_putc.simps) simp
    then have "io_step 0 [c] st0 st1"
      by (simp add: write_UART_TX_DATA_def io_step_def)
    with io_step_trans [OF s0 this] show ?thesis by simp
  qed
qed

lemma uart_puts_io:
  "uart_puts s st = Some st1 \<Longrightarrow> io_step 0 s st st1"
proof (induction s arbitrary: st)
  case Nil
  then show ?case by (simp add: io_step_refl uart_puts.simps)
next
  case (Cons c s)
  from Cons.prems obtain st0 where a: "uart_putc c st = Some st0" and b: "uart_puts s st0 = Some st1"
    by (auto simp: uart_puts.simps Option.bind_eq_Some_conv)
  from io_step_trans [OF uart_putc_io [OF a] Cons.IH [OF b]] show ?case by simp
qed

lemma uart_puts_append:
  "uart_puts (a @ b) st = uart_puts a st \<bind> uart_puts b"
proof (induction a arbitrary: st)
  case Nil
  then show ?case by (simp add: uart_puts.simps)
next
  case (Cons c a)
  then show ?case by (cases "uart_putc c st") (simp_all add: uart_puts.simps)
qed

lemma uart_put_hex_loop_step:
  "0 \<le> i \<Longrightarrow>
   uart_put_hex_loop i val st =
     uart_putc (hex_digit (ucast (drop_bit (nat i) val AND 0xF))) st \<bind> uart_put_hex_loop (i - 4) val"
  by (subst uart_put_hex_loop.simps) (simp add: hex_digit_def Let_def)

lemma uart_put_hex_loop_end: "uart_put_hex_loop (- 4) val = Some"
  by (rule ext) (simp add: uart_put_hex_loop.simps)

lemma uart_puts_Nil_fun: "uart_puts [] = Some"
  by (rule ext) (simp add: uart_puts.simps)

lemma uart_puts_Cons_fun: "uart_puts (c # cs) st = uart_putc c st \<bind> uart_puts cs"
  by (simp add: uart_puts.simps)

lemma uart_put_hex_loop_puts:
  "uart_put_hex_loop 28 val = uart_puts (hex_string val)"
proof -
  let ?d = "\<lambda>i. hex_digit (ucast (drop_bit i val AND 0xF))"
  have h0: "uart_put_hex_loop 0 val = uart_puts [?d 0]"
    by (rule ext) (simp add: uart_put_hex_loop_step [of 0] uart_put_hex_loop_end
          uart_puts_Nil_fun uart_puts_Cons_fun)
  have h4: "uart_put_hex_loop 4 val = uart_puts [?d 4, ?d 0]"
    by (rule ext) (simp add: uart_put_hex_loop_step [of 4] h0 uart_puts_Cons_fun)
  have h8: "uart_put_hex_loop 8 val = uart_puts [?d 8, ?d 4, ?d 0]"
    by (rule ext) (simp add: uart_put_hex_loop_step [of 8] h4 uart_puts_Cons_fun)
  have h12: "uart_put_hex_loop 12 val = uart_puts [?d 12, ?d 8, ?d 4, ?d 0]"
    by (rule ext) (simp add: uart_put_hex_loop_step [of 12] h8 uart_puts_Cons_fun)
  have h16: "uart_put_hex_loop 16 val = uart_puts [?d 16, ?d 12, ?d 8, ?d 4, ?d 0]"
    by (rule ext) (simp add: uart_put_hex_loop_step [of 16] h12 uart_puts_Cons_fun)
  have h20: "uart_put_hex_loop 20 val = uart_puts [?d 20, ?d 16, ?d 12, ?d 8, ?d 4, ?d 0]"
    by (rule ext) (simp add: uart_put_hex_loop_step [of 20] h16 uart_puts_Cons_fun)
  have h24: "uart_put_hex_loop 24 val = uart_puts [?d 24, ?d 20, ?d 16, ?d 12, ?d 8, ?d 4, ?d 0]"
    by (rule ext) (simp add: uart_put_hex_loop_step [of 24] h20 uart_puts_Cons_fun)
  have h28: "uart_put_hex_loop 28 val = uart_puts [?d 28, ?d 24, ?d 20, ?d 16, ?d 12, ?d 8, ?d 4, ?d 0]"
    by (rule ext) (simp add: uart_put_hex_loop_step [of 28] h24 uart_puts_Cons_fun)
  then show ?thesis by (simp add: hex_string_def)
qed

lemma uart_put_hex_puts:
  "uart_put_hex val st = uart_puts (''0x'' @ hex_string val) st"
  by (simp only: uart_put_hex_def uart_put_hex_loop_puts uart_puts_append)

lemma uart_put_hex_io:
  "uart_put_hex val st = Some st1 \<Longrightarrow> io_step 0 (''0x'' @ hex_string val) st st1"
  unfolding uart_put_hex_puts by (rule uart_puts_io)

lemma uart_rx_ready_io:
  "uart_rx_ready st = Some (r, st1) \<Longrightarrow> io_step 0 [] st st1"
  by (auto simp: uart_rx_ready_def Option.bind_eq_Some_conv dest: read_UART_STATUS_io)

lemma uart_getc_io:
  "uart_getc st = Some (c, st1) \<Longrightarrow> io_step 1 [] st st1 \<and> c = ucast (hd (UART_RX_DATA st))"
proof (induction st rule: uart_getc.induct)
  case (1 st)
  from "1.prems" obtain ready st0 where r: "uart_rx_ready st = Some (ready, st0)"
    by (subst (asm) uart_getc.simps) (auto simp: Option.bind_eq_Some_conv)
  note s0 = uart_rx_ready_io [OF r]
  then have rx: "UART_RX_DATA st0 = UART_RX_DATA st" by (simp add: io_step_def)
  show ?case
  proof (cases ready)
    case True
    with "1.prems" r obtain v where v: "read_UART_TX_DATA st0 = Some (v, st1)" and c: "c = ucast v"
      by (subst (asm) uart_getc.simps) (auto simp: Option.bind_eq_Some_conv)
    from read_UART_TX_DATA_io [OF v] io_step_trans [OF s0, of 1 "[]" st1] c rx
    show ?thesis by simp
  next
    case False
    with "1.prems" r have "uart_getc st0 = Some (c, st1)"
      by (subst (asm) uart_getc.simps) simp
    with "1.IH" [of "(ready, st0)" ready st0] r False
    have "io_step 1 [] st0 st1 \<and> c = ucast (hd (UART_RX_DATA st0))" by simp
    with io_step_trans [OF s0, of 1 "[]" st1] rx show ?thesis by simp
  qed
qed

lemma get_time_ms_io:
  "get_time_ms st = Some (t, st1) \<Longrightarrow> io_step 0 [] st st1"
  by (auto simp: get_time_ms_def Option.bind_eq_Some_conv dest: read_TIMER_VALUE_io)



lemma word_less_Suc_unat:
  fixes received len :: u32
  assumes "received < len"
  shows "unat (received + 1) = Suc (unat received)" and "received + 1 \<le> len"
proof -
  from assms have "unat received < unat len" by (simp add: word_less_nat_alt)
  moreover have "unat len < 2 ^ 32" using unsigned_less [of len] by simp
  ultimately have "unat received + 1 < 2 ^ 32" by simp
  then show "unat (received + 1) = Suc (unat received)"
    by (simp add: unat_word_ariths)
  with \<open>unat received < unat len\<close> show "received + 1 \<le> len"
    by (simp add: word_le_nat_alt)
qed

lemma uart_receive_loop_io:
  "uart_receive_loop buffer len timeout_ms start_time received st = Some (ok, buffer', st') \<Longrightarrow>
   received \<le> len \<Longrightarrow>
   \<exists>k. io_step k [] st st' \<and> unat received + k \<le> unat len \<and>
       (ok \<longleftrightarrow> unat received + k = unat len) \<and>
       buffer' = take (unat received) buffer @ map ucast (take k (UART_RX_DATA st)) @
                 drop (unat received + k) buffer"
proof (induction buffer len timeout_ms start_time received st rule: uart_receive_loop.induct)
  case (1 buffer len timeout_ms start_time received st)
  show ?case
  proof (cases "received < len")
    case False
    with "1.prems" have "received = len" "ok" "buffer' = buffer" "st' = st"
      by (auto simp: uart_receive_loop.simps [of buffer len timeout_ms start_time received st])
    then show ?thesis
      by (intro exI [of _ 0]) (simp add: io_step_refl)
  next
    case lt: True
    then have ltn: "unat received < unat len" by (simp add: word_less_nat_alt)
    from "1.prems"(1) lt obtain now st1 where g: "get_time_ms st = Some (now, st1)"
      by (subst (asm) uart_receive_loop.simps) (auto simp: Option.bind_eq_Some_conv)
    note s1 = get_time_ms_io [OF g]
    show ?thesis
    proof (cases "now - start_time > timeout_ms")
      case True
      with "1.prems"(1) lt g have "\<not> ok" "buffer' = buffer" "st' = st1"
        by (auto simp: uart_receive_loop.simps [of buffer len timeout_ms start_time received st])
      with s1 ltn show ?thesis
        by (intro exI [of _ 0]) simp
    next
      case nt: False
      from "1.prems"(1) lt g nt obtain ready st2 where r: "uart_rx_ready st1 = Some (ready, st2)"
        by (subst (asm) uart_receive_loop.simps) (auto simp: Option.bind_eq_Some_conv)
      from io_step_trans [OF s1 uart_rx_ready_io [OF r]] have s2: "io_step 0 [] st st2" by simp
      then have rx2: "UART_RX_DATA st2 = UART_RX_DATA st" by (simp add: io_step_def)
      show ?thesis
      proof (cases ready)
        case False
        with "1.prems"(1) lt g nt r
        have "uart_receive_loop buffer len timeout_ms start_time received st2 = Some (ok, buffer', st')"
          by (subst (asm) uart_receive_loop.simps) simp
        from "1.IH"(2) [OF lt g refl nt r refl False this "1.prems"(2)]
        obtain k where k: "io_step k [] st2 st'" "unat received + k \<le> unat len"
          "ok \<longleftrightarrow> unat received + k = unat len"
          "buffer' = take (unat received) buffer @ map ucast (take k (UART_RX_DATA st2)) @
                     drop (unat received + k) buffer"
          by blast
        from io_step_trans [OF s2 k(1)] k(2,3,4) rx2 show ?thesis
          by (intro exI [of _ k]) simp
      next
        case rd: True
        from "1.prems"(1) lt g nt r rd obtain c st3 where gc: "uart_getc st2 = Some (c, st3)"
          by (subst (asm) uart_receive_loop.simps) (auto simp: Option.bind_eq_Some_conv)
        from "1.prems"(1) lt g nt r rd gc have inb: "unat received < length buffer"
          by (subst (asm) uart_receive_loop.simps) (auto split: if_splits)
        from "1.prems"(1) lt g nt r rd gc inb
        have rec: "uart_receive_loop (buffer[unat received := c]) len timeout_ms start_time
                     (received + 1) st3 = Some (ok, buffer', st')"
          by (subst (asm) uart_receive_loop.simps) simp
        from uart_getc_io [OF gc] have s3: "io_step 1 [] st2 st3"
          and c: "c = ucast (hd (UART_RX_DATA st2))" by simp_all
        from s3 have ne: "UART_RX_DATA st \<noteq> []" and rx3: "UART_RX_DATA st3 = tl (UART_RX_DATA st)"
          using rx2 by (auto simp: io_step_def drop_Suc)
        note w = word_less_Suc_unat [OF lt]
        from "1.IH"(1) [OF lt g refl nt r refl rd gc refl inb rec w(2)]
        obtain k where k: "io_step k [] st3 st'" "unat (received + 1) + k \<le> unat len"
          "ok \<longleftrightarrow> unat (received + 1) + k = unat len"
          "buffer' = take (unat (received + 1)) (buffer[unat received := c]) @
                     map ucast (take k (UART_RX_DATA st3)) @
                     drop (unat (received + 1) + k) (buffer[unat received := c])"
          by blast
        from io_step_trans [OF s2 io_step_trans [OF s3 k(1)]]
        have st: "io_step (Suc k) [] st st'" by simp
        have tk: "take (Suc k) (UART_RX_DATA st) = hd (UART_RX_DATA st) # take k (tl (UART_RX_DATA st))"
          using ne by (cases "UART_RX_DATA st") simp_all
        have "take (Suc (unat received)) (buffer[unat received := c]) = take (unat received) buffer @ [c]"
          using inb by (simp add: take_Suc_conv_app_nth)
        moreover have "drop (Suc (unat received) + k) (buffer[unat received := c])
                       = drop (unat received + Suc k) buffer"
          by simp
        ultimately have "buffer' = take (unat received) buffer @
             map ucast (take (Suc k) (UART_RX_DATA st)) @ drop (unat received + Suc k) buffer"
          using k(4) w(1) tk c rx2 rx3 by simp
        with st k(2,3) w(1) show ?thesis
          by (intro exI [of _ "Suc k"]) simp
      qed
    qed
  qed
qed

lemma uart_receive_bytes_io:
  assumes "uart_receive_bytes buffer len timeout_ms st = Some (ok, buffer', st')"
  shows "\<exists>k. io_step k [] st st' \<and> k \<le> unat len \<and> (ok \<longleftrightarrow> k = unat len) \<and>
             buffer' = map ucast (take k (UART_RX_DATA st)) @ drop k buffer"
proof -
  from assms obtain start st1 where g: "get_time_ms st = Some (start, st1)"
    and l: "uart_receive_loop buffer len timeout_ms start 0 st1 = Some (ok, buffer', st')"
    by (auto simp: uart_receive_bytes_def Option.bind_eq_Some_conv)
  note s1 = get_time_ms_io [OF g]
  then have rx: "UART_RX_DATA st1 = UART_RX_DATA st" by (simp add: io_step_def)
  from uart_receive_loop_io [OF l] obtain k where k: "io_step k [] st1 st'" "k \<le> unat len"
    "ok \<longleftrightarrow> k = unat len"
    "buffer' = map ucast (take k (UART_RX_DATA st1)) @ drop k buffer"
    by auto
  from io_step_trans [OF s1 k(1)] k(2,3,4) rx show ?thesis
    by (intro exI [of _ k]) simp
qed

section \<open>Validation of the resident image\<close>

lemma io_step_table_inv:
  "io_step k out a b \<Longrightarrow> table_inv a \<Longrightarrow> table_inv b"
  by (simp add: io_step_def table_inv_def)

lemma crc32_init_table_fields:
  "memory (crc32_init_table st) = memory st"
  "UART_RX_DATA (crc32_init_table st) = UART_RX_DATA st"
  "uart_tx (crc32_init_table st) = uart_tx st"
  "UART_STATUS (crc32_init_table st) = UART_STATUS st"
  "TIMER_VALUE (crc32_init_table st) = TIMER_VALUE st"
  by (simp_all add: crc32_init_table_def)

lemma verify_application_cases:
  assumes inv: "table_inv st" and run: "verify_application addr st = Some (ok, st')"
  defines "h \<equiv> read_header (memory st) addr"
  defines "calc \<equiv> crc32_ref (payload_bytes (memory st) addr (size_hdr h - sizeof_firmware_header_t))"
  shows "memory st' = memory st \<and> table_inv st' \<and> UART_RX_DATA st' = UART_RX_DATA st \<and>
     (if magic h \<noteq> BOOT_MAGIC then
        \<not> ok \<and> uart_tx st' = uart_tx st @ ''No valid application (bad magic)'' @ CRLF
      else if size_hdr h > MAX_APP_SIZE then
        \<not> ok \<and> uart_tx st' = uart_tx st @ ''Application too large'' @ CRLF
      else if calc \<noteq> crc32 h then
        \<not> ok \<and> uart_tx st' = uart_tx st @ ''CRC check failed - Expected: '' @ ''0x'' @
           hex_string (crc32 h) @ '', Calculated: '' @ ''0x'' @ hex_string calc @ CRLF
      else ok \<and> uart_tx st' = uart_tx st)"
proof -
  consider (m) "magic h \<noteq> BOOT_MAGIC"
    | (s) "magic h = BOOT_MAGIC" "size_hdr h > MAX_APP_SIZE"
    | (c) "magic h = BOOT_MAGIC" "\<not> size_hdr h > MAX_APP_SIZE" "calc \<noteq> crc32 h"
    | (v) "magic h = BOOT_MAGIC" "\<not> size_hdr h > MAX_APP_SIZE" "calc = crc32 h"
    by blast
  then show ?thesis
  proof cases
    case m
    with run have p: "uart_puts (''No valid application (bad magic)'' @ CRLF) st = Some st'"
      and nok: "\<not> ok"
      by (auto simp: verify_application_def h_def Let_def Option.bind_eq_Some_conv)
    note io = uart_puts_io [OF p]
    from io_step_table_inv [OF io inv] io m nok show ?thesis
      by (simp add: io_step_def)
  next
    case s
    with run have p: "uart_puts (''Application too large'' @ CRLF) st = Some st'"
      and nok: "\<not> ok"
      by (auto simp: verify_application_def h_def Let_def Option.bind_eq_Some_conv)
    note io = uart_puts_io [OF p]
    from io_step_table_inv [OF io inv] io s nok show ?thesis
      by (simp add: io_step_def)
  next
    case c
    let ?st1 = "crc32_init_table st"
    have cc: "crc32_calculate (\<lambda>i. memory st (addr + sizeof_firmware_header_t + of_nat i))
               (size_hdr h - sizeof_firmware_header_t) st = (calc, ?st1)"
      by (simp add: crc32_calculate_ref [OF inv] calc_def payload_bytes_def)
    from run c cc obtain st2 st3 st4 st5 where
      p: "uart_puts ''CRC check failed - Expected: '' ?st1 = Some st2"
         "uart_put_hex (crc32 h) st2 = Some st3"
         "uart_puts '', Calculated: '' st3 = Some st4"
         "uart_put_hex calc st4 = Some st5"
         "uart_puts CRLF st5 = Some st'" and nok: "\<not> ok"
      by (auto simp: verify_application_def h_def [symmetric] Let_def Option.bind_eq_Some_conv)
    from io_step_trans [OF uart_puts_io [OF p(1)]
           io_step_trans [OF uart_put_hex_io [OF p(2)]
             io_step_trans [OF uart_puts_io [OF p(3)]
               io_step_trans [OF uart_put_hex_io [OF p(4)] uart_puts_io [OF p(5)]]]]]
    have io: "io_step 0 (''CRC check failed - Expected: '' @ (''0x'' @ hex_string (crc32 h)) @
                '', Calculated: '' @ (''0x'' @ hex_string calc) @ CRLF) ?st1 st'"
      by simp
    from io_step_table_inv [OF io crc32_init_table_inv [OF inv]] io c nok show ?thesis
      by (simp add: io_step_def crc32_init_table_fields)
  next
    case v
    let ?st1 = "crc32_init_table st"
    have cc: "crc32_calculate (\<lambda>i. memory st (addr + sizeof_firmware_header_t + of_nat i))
               (size_hdr h - sizeof_firmware_header_t) st = (calc, ?st1)"
      by (simp add: crc32_calculate_ref [OF inv] calc_def payload_bytes_def)
    from run v cc have "ok" "st' = ?st1"
      by (auto simp: verify_application_def h_def [symmetric] Let_def)
    with crc32_init_table_inv [OF inv] v show ?thesis
      by (simp add: crc32_init_table_fields)
  qed
qed

section \<open>The update session\<close>

lemma map_nth_take: "n \<le> length xs \<Longrightarrow> map ((!) xs) [0..<n] = take n xs"
  by (induction n) (simp_all add: take_Suc_conv_app_nth)

lemma crc32_update_chunk_foldl:
  "unat chunk \<le> length buffer \<Longrightarrow>
   crc32_update_chunk tbl crc buffer chunk = foldl (crc32_accumulate tbl) crc (take (unat chunk) buffer)"
  by (simp add: crc32_update_chunk_def fold_crc32_accumulate_foldl [of tbl "(!) buffer"] map_nth_take)

lemma chunk_bounds:
  fixes remaining :: u32
  assumes "0 < remaining"
  defines "chunk \<equiv> (if 128 < remaining then 128 else remaining)"
  shows "unat chunk \<le> 128" "unat chunk \<le> unat remaining"
    "unat (remaining - chunk) = unat remaining - unat chunk"
proof -
  show a: "unat chunk \<le> 128"
    by (auto simp: chunk_def word_less_nat_alt not_less word_le_nat_alt)
  show b: "unat chunk \<le> unat remaining"
    by (auto simp: chunk_def word_less_nat_alt)
  have "chunk \<le> remaining" using b by (simp add: word_le_nat_alt)
  then show "unat (remaining - chunk) = unat remaining - unat chunk"
    by (simp add: unat_sub)
qed

lemma receive_payload_io:
  "receive_payload remaining crc buffer st = Some (ok, crc', st') \<Longrightarrow> length buffer = 128 \<Longrightarrow>
   \<exists>k out. io_step k out st st' \<and> k \<le> unat remaining \<and> (ok \<longleftrightarrow> k = unat remaining) \<and>
     (ok \<longrightarrow> crc' = foldl (crc32_accumulate (crc32_table st)) crc (map ucast (take k (UART_RX_DATA st))))"
proof (induction remaining crc buffer st rule: receive_payload.induct)
  case (1 remaining crc buffer st)
  show ?case
  proof (cases "remaining > 0")
    case False
    then have z: "unat remaining = 0" by (simp add: word_less_nat_alt)
    from "1.prems"(1) False have "ok" "crc' = crc" "st' = st"
      by (auto simp: receive_payload.simps [of remaining crc buffer st])
    with z show ?thesis
      by (intro exI [of _ 0] exI [of _ "[]"]) (simp add: io_step_refl)
  next
    case pos: True
    define chunk where "chunk = (if remaining > 128 then 128 else remaining)"
    note cb = chunk_bounds [OF pos, folded chunk_def]
    from "1.prems"(1) pos obtain ok1 buffer1 st1 where
      rb: "uart_receive_bytes buffer chunk 5000 st = Some (ok1, buffer1, st1)"
      by (subst (asm) receive_payload.simps)
         (auto simp: Option.bind_eq_Some_conv Let_def chunk_def)
    from uart_receive_bytes_io [OF rb] obtain k1 where
      k1: "io_step k1 [] st st1" "k1 \<le> unat chunk" "ok1 \<longleftrightarrow> k1 = unat chunk"
          "buffer1 = map ucast (take k1 (UART_RX_DATA st)) @ drop k1 buffer"
      by blast
    from k1(1) have k1len: "k1 \<le> length (UART_RX_DATA st)"
      and tb1: "crc32_table st1 = crc32_table st"
      by (simp_all add: io_step_def)
    show ?thesis
    proof (cases ok1)
      case False
      with "1.prems"(1) pos rb obtain st2 where
        p: "uart_puts (CRLF @ ''ERROR: Data timeout'' @ CRLF) st1 = Some st2"
        and r: "\<not> ok" "st' = st2"
        by (subst (asm) receive_payload.simps)
           (auto simp: Option.bind_eq_Some_conv Let_def chunk_def)
      from io_step_trans [OF k1(1) uart_puts_io [OF p]] r(2)
      have "io_step k1 (CRLF @ ''ERROR: Data timeout'' @ CRLF) st st'" by simp
      moreover from False k1(2,3) cb(2) have "k1 < unat remaining" by simp
      ultimately show ?thesis using r(1) by (intro exI conjI) auto
    next
      case ok1: True
      with k1(3) have k1eq: "k1 = unat chunk" by simp
      from "1.prems"(1) pos rb ok1 obtain st2 where
        pc: "uart_putc CHR ''.'' st1 = Some st2"
        and rec: "receive_payload (remaining - chunk)
                    (crc32_update_chunk (crc32_table st1) crc buffer1 chunk) buffer1 st2
                  = Some (ok, crc', st')"
        by (subst (asm) receive_payload.simps)
           (auto simp: Option.bind_eq_Some_conv Let_def chunk_def)
      have len1: "length buffer1 = 128"
        using k1(4) k1len k1(2) cb(1) "1.prems"(2) by simp
      have tk: "take (unat chunk) buffer1 = map ucast (take k1 (UART_RX_DATA st))"
        using k1(4) k1len k1eq by simp
      have crc1: "crc32_update_chunk (crc32_table st1) crc buffer1 chunk
                  = foldl (crc32_accumulate (crc32_table st)) crc (map ucast (take k1 (UART_RX_DATA st)))"
        using cb(1) len1 by (simp add: crc32_update_chunk_foldl tk tb1)
      from io_step_trans [OF k1(1) uart_putc_io [OF pc]]
      have s2: "io_step k1 [CHR ''.''] st st2" by simp
      then have rx2: "UART_RX_DATA st2 = drop k1 (UART_RX_DATA st)"
        and tb2: "crc32_table st2 = crc32_table st"
        by (simp_all add: io_step_def)
      from ok1 have nn: "\<not> \<not> ok1" by simp
      from "1.IH" [OF pos chunk_def rb refl refl nn pc rec len1]
      obtain k2 out2 where
        k2: "io_step k2 out2 st2 st'" "k2 \<le> unat (remaining - chunk)"
            "ok \<longleftrightarrow> k2 = unat (remaining - chunk)"
            "ok \<longrightarrow> crc' = foldl (crc32_accumulate (crc32_table st2))
                       (crc32_update_chunk (crc32_table st1) crc buffer1 chunk)
                       (map ucast (take k2 (UART_RX_DATA st2)))"
        by auto
      from io_step_trans [OF s2 k2(1)]
      have "io_step (k1 + k2) ([CHR ''.''] @ out2) st st'" .
      moreover from k2(2) cb(2,3) k1eq have "k1 + k2 \<le> unat remaining" by simp
      moreover from k2(3) cb(2,3) k1eq have "ok \<longleftrightarrow> k1 + k2 = unat remaining" by auto
      moreover have "ok \<longrightarrow> crc' = foldl (crc32_accumulate (crc32_table st)) crc
                       (map ucast (take (k1 + k2) (UART_RX_DATA st)))"
        using k2(4) by (simp add: crc1 tb2 rx2 take_add)
      ultimately show ?thesis by blast
    qed
  qed
qed

lemma receive_firmware_cases:
  assumes inv: "table_inv st" and run: "receive_firmware st = Some (ok, st')"
  defines "rx \<equiv> (map ucast (UART_RX_DATA st) :: u8 list)"
  defines "h \<equiv> header_of_bytes (take 20 rx)"
  shows "memory st' = memory st \<and> table_inv st' \<and>
    (\<exists>k out. k \<le> length (UART_RX_DATA st) \<and> UART_RX_DATA st' = drop k (UART_RX_DATA st) \<and>
       uart_tx st' = uart_tx st @ waiting_msg @ out \<and>
       (if k < 20 then \<not> ok
        else if magic h \<noteq> BOOT_MAGIC \<or> size_hdr h > MAX_APP_SIZE then \<not> ok \<and> k = 20
        else k \<le> 20 + unat (size_hdr h) \<and>
             (if k < 20 + unat (size_hdr h) then \<not> ok
              else ok \<longleftrightarrow> crc32_ref (take (unat (size_hdr h)) (drop 20 rx)) = crc32 h)))"
proof -
  from run obtain st1 ok1 hbuf st2 where
    p1: "uart_puts waiting_msg st = Some st1" and
    rb: "uart_receive_bytes (replicate 20 0) sizeof_firmware_header_t 30000 st1 = Some (ok1, hbuf, st2)"
    by (auto simp: receive_firmware_def waiting_msg_def Option.bind_eq_Some_conv)
  note s1 = uart_puts_io [OF p1]
  then have rx1: "UART_RX_DATA st1 = UART_RX_DATA st" by (simp add: io_step_def)
  from uart_receive_bytes_io [OF rb] obtain k1 where
    k1: "io_step k1 [] st1 st2" "k1 \<le> 20" "ok1 \<longleftrightarrow> k1 = 20"
        "hbuf = map ucast (take k1 (UART_RX_DATA st1)) @ drop k1 (replicate 20 0)"
    by (auto simp: sizeof_firmware_header_t_def)
  from io_step_trans [OF s1 k1(1)] have s2: "io_step k1 waiting_msg st st2" by simp
  have tail: ?thesis if f: "\<not> ok" "io_step 0 out2 st2 st'"
    and c: "k1 < 20 \<or> magic h \<noteq> BOOT_MAGIC \<or> size_hdr h > MAX_APP_SIZE" for out2
  proof -
    from io_step_trans [OF s2 f(2)] have io: "io_step k1 (waiting_msg @ out2) st st'" by simp
    from io_step_table_inv [OF io inv] io f(1) c k1(2) show ?thesis
      by (auto simp: io_step_def intro!: exI [of _ k1] exI [of _ out2])
  qed
  show ?thesis
  proof (cases ok1)
    case False
    with run p1 rb obtain "uart_puts (''ERROR: Header timeout'' @ CRLF) st2 = Some st'" "\<not> ok"
      by (auto simp: receive_firmware_def waiting_msg_def Option.bind_eq_Some_conv)
    from tail [OF this(2) uart_puts_io [OF this(1)]] False k1(2,3) show ?thesis by simp
  next
    case ok1: True
    with k1(3) have k20: "k1 = 20" by simp
    from s2 k20 have len: "20 \<le> length (UART_RX_DATA st)" by (simp add: io_step_def)
    have hb: "header_of_bytes hbuf = h"
      using k1(4) k20 rx1 by (simp add: h_def rx_def take_map)
    show ?thesis
    proof (cases "magic h \<noteq> BOOT_MAGIC")
      case True
      with run p1 rb ok1 hb obtain st3 st4 where
        p: "uart_puts ''ERROR: Invalid magic - '' st2 = Some st3"
           "uart_put_hex (magic h) st3 = Some st4" "uart_puts CRLF st4 = Some st'" and nok: "\<not> ok"
        by (auto simp: receive_firmware_def waiting_msg_def Let_def Option.bind_eq_Some_conv)
      from io_step_trans [OF uart_puts_io [OF p(1)]
             io_step_trans [OF uart_put_hex_io [OF p(2)] uart_puts_io [OF p(3)]]]
      have "io_step 0 (''ERROR: Invalid magic - '' @ (''0x'' @ hex_string (magic h)) @ CRLF) st2 st'"
        by simp
      from tail [OF nok this] True show ?thesis by simp
    next
      case mok: False
      show ?thesis
      proof (cases "size_hdr h > MAX_APP_SIZE")
        case True
        with run p1 rb ok1 hb mok obtain
          p: "uart_puts (''ERROR: Firmware too large'' @ CRLF) st2 = Some st'" and nok: "\<not> ok"
          by (auto simp: receive_firmware_def waiting_msg_def Let_def Option.bind_eq_Some_conv)
        from tail [OF nok uart_puts_io [OF p]] True show ?thesis by simp
      next
        case sok: False
        from run p1 rb ok1 hb mok sok obtain st3 st4 st5 st6 st7 st8 st9 ok2 crc st10 where
          p: "uart_puts ''Firmware version: '' st2 = Some st3"
             "uart_put_hex (version h) st3 = Some st4"
             "uart_puts (CRLF @ ''Size: '') st4 = Some st5"
             "uart_put_hex (size_hdr h) st5 = Some st6"
             "uart_puts ('' bytes'' @ CRLF) st6 = Some st7"
             "uart_puts (''Simulating flash programming...'' @ CRLF) st7 = Some st8"
             "uart_puts ''Programming'' st8 = Some st9" and
          rp: "receive_payload (size_hdr h) 0xFFFFFFFF (replicate 128 0) (crc32_init_table st9)
               = Some (ok2, crc, st10)"
          by (auto simp: receive_firmware_def waiting_msg_def Let_def Option.bind_eq_Some_conv)
        define out9 where "out9 = ''Firmware version: '' @ (''0x'' @ hex_string (version h)) @
          (CRLF @ ''Size: '') @ (''0x'' @ hex_string (size_hdr h)) @ ('' bytes'' @ CRLF) @
          (''Simulating flash programming...'' @ CRLF) @ ''Programming''"
        from io_step_trans [OF uart_puts_io [OF p(1)]
               io_step_trans [OF uart_put_hex_io [OF p(2)]
                 io_step_trans [OF uart_puts_io [OF p(3)]
                   io_step_trans [OF uart_put_hex_io [OF p(4)]
                     io_step_trans [OF uart_puts_io [OF p(5)]
                       io_step_trans [OF uart_puts_io [OF p(6)] uart_puts_io [OF p(7)]]]]]]]
        have "io_step 0 out9 st2 st9" by (simp add: out9_def)
        from io_step_trans [OF s2 this] k20 have s9: "io_step 20 (waiting_msg @ out9) st st9" by simp
        let ?sti = "crc32_init_table st9"
        have inv9: "table_inv st9" by (rule io_step_table_inv [OF s9 inv])
        have invi: "table_inv ?sti" by (rule crc32_init_table_inv [OF inv9])
        have rxi: "UART_RX_DATA ?sti = drop 20 (UART_RX_DATA st)"
          and txi: "uart_tx ?sti = uart_tx st @ waiting_msg @ out9"
          and memi: "memory ?sti = memory st"
          using s9 by (simp_all add: crc32_init_table_fields io_step_def)
        from receive_payload_io [OF rp] obtain k2 out2 where
          k2: "io_step k2 out2 ?sti st10" "k2 \<le> unat (size_hdr h)" "ok2 \<longleftrightarrow> k2 = unat (size_hdr h)"
              "ok2 \<longrightarrow> crc = foldl (crc32_accumulate (crc32_table ?sti)) 0xFFFFFFFF
                               (map ucast (take k2 (UART_RX_DATA ?sti)))"
          by auto
        have inv10: "table_inv st10" by (rule io_step_table_inv [OF k2(1) invi])
        from k2(1) have f10: "memory st10 = memory st"
          "UART_RX_DATA st10 = drop (20 + k2) (UART_RX_DATA st)"
          "20 + k2 \<le> length (UART_RX_DATA st)"
          "uart_tx st10 = uart_tx st @ waiting_msg @ out9 @ out2"
          using rxi txi memi len by (auto simp: io_step_def add.commute)
        have fin: ?thesis if f: "io_step 0 out3 st10 st'"
          and r: "if k2 < unat (size_hdr h) then \<not> ok
                  else ok \<longleftrightarrow> crc32_ref (take (unat (size_hdr h)) (drop 20 rx)) = crc32 h" for out3
        proof -
          from f f10 have "memory st' = memory st"
            "UART_RX_DATA st' = drop (20 + k2) (UART_RX_DATA st)"
            "uart_tx st' = uart_tx st @ waiting_msg @ (out9 @ out2 @ out3)"
            by (simp_all add: io_step_def)
          moreover note io_step_table_inv [OF f inv10] f10(3) k2(2) r mok sok
          ultimately show ?thesis
            by (auto intro!: exI [of _ "20 + k2"] exI [of _ "out9 @ out2 @ out3"])
        qed
        show ?thesis
        proof (cases ok2)
          case False
          with run p1 rb ok1 hb mok sok p rp have "\<not> ok" "st' = st10"
            by (auto simp: receive_firmware_def waiting_msg_def Let_def)
          with fin [of "[]"] False k2(2,3) show ?thesis
            by (simp add: io_step_refl)
        next
          case ok2: True
          with k2(3) have k2eq: "k2 = unat (size_hdr h)" by simp
          have "crc = foldl crc32_byte_ref 0xFFFFFFFF (map ucast (take k2 (UART_RX_DATA ?sti)))"
            using k2(4) ok2
            by (simp add: foldl_crc32_accumulate_ref [OF crc32_init_table_table [OF inv9]])
          then have crc: "NOT crc = crc32_ref (take (unat (size_hdr h)) (drop 20 rx))"
            by (simp add: crc32_ref_def rxi rx_def k2eq take_map drop_map)
          from run p1 rb ok1 hb mok sok p rp ok2 obtain st11 where
            pd: "uart_puts ('' done'' @ CRLF) st10 = Some st11"
            by (auto simp: receive_firmware_def waiting_msg_def Let_def Option.bind_eq_Some_conv)
          note s11 = uart_puts_io [OF pd]
          show ?thesis
          proof (cases "NOT crc \<noteq> crc32 h")
            case True
            with run p1 rb ok1 hb mok sok p rp ok2 pd obtain
              pe: "uart_puts (''ERROR: CRC mismatch!'' @ CRLF) st11 = Some st'" and nok: "\<not> ok"
              by (auto simp: receive_firmware_def waiting_msg_def Let_def Option.bind_eq_Some_conv)
            from fin [OF io_step_trans [OF s11 uart_puts_io [OF pe], simplified]] nok True crc k2eq
            show ?thesis by simp
          next
            case False
            with run p1 rb ok1 hb mok sok p rp ok2 pd obtain st12 where
              pe: "uart_puts (''Firmware update successful!'' @ CRLF) st11 = Some st12"
                  "uart_puts (''Note: This is a simulation - actual flash programming would occur here'' @ CRLF)
                     st12 = Some st'" and yes: "ok"
              by (auto simp: receive_firmware_def waiting_msg_def Let_def Option.bind_eq_Some_conv)
            from fin [OF io_step_trans [OF s11 io_step_trans [OF uart_puts_io [OF pe(1)]
                        uart_puts_io [OF pe(2)]], simplified]] yes False crc k2eq
            show ?thesis by simp
          qed
        qed
      qed
    qed
  qed
qed

section \<open>Running the functions on given register values\<close>

lemma read_UART_STATUS_exec:
  "UART_STATUS st \<noteq> [] \<Longrightarrow>
   read_UART_STATUS st = Some (hd (UART_STATUS st), st\<lparr>UART_STATUS := tl (UART_STATUS st)\<rparr>)"
  by (cases "UART_STATUS st") (simp_all add: read_UART_STATUS_def)

lemma read_TIMER_VALUE_exec:
  "TIMER_VALUE st \<noteq> [] \<Longrightarrow>
   read_TIMER_VALUE st = Some (hd (TIMER_VALUE st), st\<lparr>TIMER_VALUE := tl (TIMER_VALUE st)\<rparr>)"
  by (cases "TIMER_VALUE st") (simp_all add: read_TIMER_VALUE_def)

lemma read_UART_TX_DATA_exec:
  "UART_RX_DATA st \<noteq> [] \<Longrightarrow>
   read_UART_TX_DATA st = Some (hd (UART_RX_DATA st), st\<lparr>UART_RX_DATA := tl (UART_RX_DATA st)\<rparr>)"
  by (cases "UART_RX_DATA st") (simp_all add: read_UART_TX_DATA_def)

lemma uart_putc_exec:
  "UART_STATUS st \<noteq> [] \<Longrightarrow>
   uart_putc c st =
     (if hd (UART_STATUS st) AND UART_TX_EMPTY = 0
      then uart_putc c (st\<lparr>UART_STATUS := tl (UART_STATUS st)\<rparr>)
      else Some (write_UART_TX_DATA c (st\<lparr>UART_STATUS := tl (UART_STATUS st)\<rparr>)))"
  by (subst uart_putc.simps) (simp add: read_UART_STATUS_exec)

lemma uart_puts_exec:
  "length str \<le> length (UART_STATUS st) \<Longrightarrow>
   \<forall>s \<in> set (take (length str) (UART_STATUS st)). s AND UART_TX_EMPTY \<noteq> 0 \<Longrightarrow>
   uart_puts str st =
     Some (st\<lparr>UART_STATUS := drop (length str) (UART_STATUS st), uart_tx := uart_tx st @ str\<rparr>)"
proof (induction str arbitrary: st)
  case Nil
  then show ?case by (simp add: uart_puts.simps)
next
  case (Cons c str)
  from Cons.prems obtain s ss where ss: "UART_STATUS st = s # ss" and s: "s AND UART_TX_EMPTY \<noteq> 0"
    by (cases "UART_STATUS st") auto
  let ?st1 = "st\<lparr>UART_STATUS := ss, uart_tx := uart_tx st @ [c]\<rparr>"
  have pc: "uart_putc c st = Some ?st1"
    using ss s by (simp add: uart_putc_exec write_UART_TX_DATA_def)
  have "uart_puts str ?st1 =
     Some (?st1\<lparr>UART_STATUS := drop (length str) (UART_STATUS ?st1), uart_tx := uart_tx ?st1 @ str\<rparr>)"
    using Cons.prems ss by (intro Cons.IH) auto
  with pc ss show ?case by (simp add: uart_puts.simps)
qed

lemma uart_getc_exec:
  "UART_STATUS st \<noteq> [] \<Longrightarrow>
   uart_getc st =
     (if hd (UART_STATUS st) AND UART_RX_READY = 0
      then uart_getc (st\<lparr>UART_STATUS := tl (UART_STATUS st)\<rparr>)
      else do { (v, st2) \<leftarrow> read_UART_TX_DATA (st\<lparr>UART_STATUS := tl (UART_STATUS st)\<rparr>);
                Some (ucast v, st2) })"
  by (subst uart_getc.simps) (simp add: uart_rx_ready_def read_UART_STATUS_exec)

lemma delay_ms_loop_exec:
  "TIMER_VALUE st \<noteq> [] \<Longrightarrow>
   delay_ms_loop start ms st =
     (if hd (TIMER_VALUE st) div 50000 - start < ms
      then delay_ms_loop start ms (st\<lparr>TIMER_VALUE := tl (TIMER_VALUE st)\<rparr>)
      else Some (st\<lparr>TIMER_VALUE := tl (TIMER_VALUE st)\<rparr>))"
  by (subst delay_ms_loop.simps) (simp add: get_time_ms_def read_TIMER_VALUE_exec)

lemma uart_receive_loop_exec:
  "TIMER_VALUE st \<noteq> [] \<Longrightarrow> received < len \<Longrightarrow>
   uart_receive_loop buffer len timeout_ms start_time received st =
     (let st1 = st\<lparr>TIMER_VALUE := tl (TIMER_VALUE st)\<rparr> in
      if hd (TIMER_VALUE st) div 50000 - start_time > timeout_ms then Some (False, buffer, st1)
      else do { (ready, st2) \<leftarrow> uart_rx_ready st1;
                if ready then
                  do { (c, st3) \<leftarrow> uart_getc st2;
                       if unat received < length buffer
                       then uart_receive_loop (buffer[unat received := c]) len timeout_ms
                              start_time (received + 1) st3
                       else None }
                else uart_receive_loop buffer len timeout_ms start_time received st2 })"
  by (subst uart_receive_loop.simps) (simp add: get_time_ms_def read_TIMER_VALUE_exec)

lemma uart_receive_loop_done:
  "\<not> received < len \<Longrightarrow>
   uart_receive_loop buffer len timeout_ms start_time received st = Some (True, buffer, st)"
  by (subst uart_receive_loop.simps) simp

lemma receive_payload_exec:
  "remaining > 0 \<Longrightarrow> TIMER_VALUE st \<noteq> [] \<Longrightarrow>
   receive_payload remaining crc buffer st =
     (let chunk = (if remaining > 128 then 128 else remaining) in
      do { (ok, buffer1, st1) \<leftarrow> uart_receive_bytes buffer chunk 5000 st;
           if \<not> ok then
             do { st2 \<leftarrow> uart_puts (CRLF @ ''ERROR: Data timeout'' @ CRLF) st1;
                  Some (False, crc, st2) }
           else
             do { st2 \<leftarrow> uart_putc CHR ''.'' st1;
                  receive_payload (remaining - chunk)
                    (crc32_update_chunk (crc32_table st1) crc buffer1 chunk) buffer1 st2 } })"
  by (subst receive_payload.simps) simp

lemma receive_payload_done:
  "receive_payload 0 crc buffer st = Some (True, crc, st)"
  by (subst receive_payload.simps) simp

lemma check_for_update_loop_exec:
  "TIMER_VALUE st \<noteq> [] \<Longrightarrow>
   check_for_update_loop start st =
     (let st1 = st\<lparr>TIMER_VALUE := tl (TIMER_VALUE st)\<rparr> in
      if hd (TIMER_VALUE st) div 50000 - start < TIMEOUT_MS then
        do { (ready, st2) \<leftarrow> uart_rx_ready st1;
             if ready then
               do { (c, st3) \<leftarrow> uart_getc st2;
                    if c = of_char CHR ''U'' \<or> c = of_char CHR ''u'' then Some (True, st3)
                    else Some (False, st3) }
             else
               do { (now2, st3) \<leftarrow> get_time_ms st2;
                    let elapsed = now2 - start in
                    if elapsed div 500 > last_dot st3 then
                      do { st4 \<leftarrow> uart_putc CHR ''.'' st3;
                           check_for_update_loop start (st4\<lparr>last_dot := last_dot st4 + 1\<rparr>) }
                    else check_for_update_loop start st3 } }
      else do { st2 \<leftarrow> uart_puts CRLF st1; Some (False, st2) })"
  by (subst check_for_update_loop.simps) (simp add: get_time_ms_def read_TIMER_VALUE_exec)

lemmas exec_simps = read_UART_STATUS_exec read_TIMER_VALUE_exec read_UART_TX_DATA_exec
  uart_putc_exec uart_puts_exec uart_getc_exec delay_ms_loop_exec uart_receive_loop_exec
  uart_receive_loop_done receive_payload_exec receive_payload_done check_for_update_loop_exec
  uart_put_hex_puts uart_rx_ready_def get_time_ms_def delay_ms_def uart_receive_bytes_def
  write_UART_TX_DATA_def UART_TX_EMPTY_def UART_RX_READY_def

lemma crc32_init_table_fresh:
  "table_inv st \<Longrightarrow> \<not> crc32_table_initialized st \<Longrightarrow>
   crc32_init_table st
   = st\<lparr>crc32_table := map crc32_entry_ref [0..<256], crc32_table_initialized := True\<rparr>"
  by (simp add: crc32_init_table_def table_inv_def fold_init_entry_table)

lemma crc32_accumulate_std:
  "crc32_accumulate (map crc32_entry_ref [0..<256]) crc byte = crc32_byte_ref crc byte"
  by (rule crc32_accumulate_ref) simp

lemmas session_eval = receive_firmware_def exec_simps CRLF_def reset_state_def
  sizeof_firmware_header_t_def Let_def bytes_of_header_def bytes_of_u32_def BOOT_MAGIC_def
  header_of_bytes_def read_header_def read_u32_def MAX_APP_SIZE_def hex_string_def hex_digit_def
  crc32_init_table_fresh table_inv_def waiting_msg_def char_of_eq_iff

lemma chunk_DEADBEEF:
  "crc32_update_chunk (map crc32_entry_ref [0..<256]) 0xFFFFFFFF
     ((replicate 128 0)[0 := 0xDE, Suc 0 := 0xAD, 2 := 0xBE, 3 := 0xEF]) 4 = NOT 0x7C9CA35A"
proof -
  have u: "[0..<4 :: nat] = [0, Suc 0, 2, 3]"
    by (simp add: upt_rec)
  have "crc32_update_chunk (map crc32_entry_ref [0..<256]) 0xFFFFFFFF
     ((replicate 128 0)[0 := 0xDE, Suc 0 := 0xAD, 2 := 0xBE, 3 := 0xEF]) 4
     = crc32_byte_ref (crc32_byte_ref (crc32_byte_ref (crc32_byte_ref 0xFFFFFFFF 0xDE) 0xAD) 0xBE) 0xEF"
    by (simp add: crc32_update_chunk_def u crc32_accumulate_std)
  also have "\<dots> = NOT 0x7C9CA35A"
    by (simp add: crc32_byte_ref_def crc32_bit_ref_def funpow8)
  finally show ?thesis .
qed

section \<open>Properties of the CRC and of the transport reader\<close>

lemma fold_chunks_foldl:
  "\<forall>c \<in> set chunks. length c < 2 ^ 32 \<Longrightarrow>
   fold (\<lambda>c crc. crc32_update_chunk tbl crc c (of_nat (length c))) chunks crc
   = foldl (crc32_accumulate tbl) crc (concat chunks)"
proof (induction chunks arbitrary: crc)
  case Nil
  then show ?case by simp
next
  case (Cons c chunks)
  then have "length c < 2 ^ LENGTH(32)" by simp
  then have "unat (of_nat (length c) :: u32) = length c"
    by (simp add: unsigned_of_nat take_bit_nat_eq_self)
  then have "crc32_update_chunk tbl crc c (of_nat (length c)) = foldl (crc32_accumulate tbl) crc c"
    by (simp add: crc32_update_chunk_foldl)
  with Cons show ?case by simp
qed

lemma length_chunk_le_concat: "c \<in> set chunks \<Longrightarrow> length c \<le> length (concat chunks)"
  by (induction chunks) auto

text \<open>
  C3. For every way of cutting a byte sequence into consecutive chunks, feeding the
  chunks one after the other into the running accumulator of \<^verbatim>\<open>receive_firmware\<close>
  (started at 0xFFFFFFFF, complemented once at the end) gives the same 32-bit result as one
  call of \<^verbatim>\<open>crc32_calculate\<close> on the whole sequence. The sequence is shorter than
  \<open>2^32\<close> bytes, as its length is passed in a \<^verbatim>\<open>uint32_t\<close>.
\<close>

theorem crc32_chunked_agrees:
  assumes "length (concat chunks) < 2 ^ 32"
  shows "NOT (fold (\<lambda>c crc. crc32_update_chunk (crc32_table (crc32_init_table st)) crc c
                             (of_nat (length c))) chunks 0xFFFFFFFF)
         = fst (crc32_calculate (\<lambda>i. concat chunks ! i) (of_nat (length (concat chunks))) st)"
proof -
  have "\<forall>c \<in> set chunks. length c < 2 ^ 32"
    using assms length_chunk_le_concat [of _ chunks] by (meson le_less_trans)
  then have l: "fold (\<lambda>c crc. crc32_update_chunk (crc32_table (crc32_init_table st)) crc c
                             (of_nat (length c))) chunks 0xFFFFFFFF
        = foldl (crc32_accumulate (crc32_table (crc32_init_table st))) 0xFFFFFFFF (concat chunks)"
    by (rule fold_chunks_foldl)
  from assms have "length (concat chunks) < 2 ^ LENGTH(32)" by simp
  then have "unat (of_nat (length (concat chunks)) :: u32) = length (concat chunks)"
    by (simp add: unsigned_of_nat take_bit_nat_eq_self)
  then have "map (\<lambda>i. concat chunks ! i) [0..<unat (of_nat (length (concat chunks)) :: u32)]
             = concat chunks"
    by (simp add: map_nth)
  then show ?thesis
    by (simp add: crc32_calculate_foldl l)
qed

theorem crc32_chunked_agrees_witness:
  "length (concat ([0xDE, 0xAD] # [] # [0xBE :: u8] # [0xEF] # [])) < 2 ^ 32 \<and>
   NOT (fold (\<lambda>c crc. crc32_update_chunk (crc32_table (crc32_init_table (reset_state [] [] [] (\<lambda>a. 0))))
                crc c (of_nat (length c))) ([0xDE, 0xAD] # [] # [0xBE] # [0xEF] # []) 0xFFFFFFFF)
   = fst (crc32_calculate (\<lambda>i. [0xDE, 0xAD, 0xBE, 0xEF] ! i) 4 (reset_state [] [] [] (\<lambda>a. 0)))"
proof -
  have l: "length (concat ([0xDE, 0xAD] # [] # [0xBE :: u8] # [0xEF] # [])) < 2 ^ 32" by simp
  from crc32_chunked_agrees [OF l, of "reset_state [] [] [] (\<lambda>a. 0)"] l
  show ?thesis by simp
qed

text \<open>
  C10. Whenever \<^verbatim>\<open>uart_receive_bytes\<close> returns, having taken \<open>k\<close> bytes from the receive
  register, \<open>k\<close> is at most the requested length; it returns \<^verbatim>\<open>false\<close> exactly when \<open>k\<close>
  is less than the requested length, which is the timeout; the first \<open>k\<close> entries of the
  buffer hold the \<open>k\<close> bytes in the order of their arrival, and the entries from \<open>k\<close> on
  are the ones the caller passed in.
\<close>

theorem uart_receive_bytes_timeout:
  assumes "uart_receive_bytes buffer len timeout_ms st = Some (ok, buffer', st')"
  defines "k \<equiv> length (UART_RX_DATA st) - length (UART_RX_DATA st')"
  shows "k \<le> unat len \<and> (ok \<longleftrightarrow> \<not> k < unat len) \<and>
         UART_RX_DATA st' = drop k (UART_RX_DATA st) \<and>
         take k buffer' = map ucast (take k (UART_RX_DATA st)) \<and>
         drop k buffer' = drop k buffer"
proof -
  from uart_receive_bytes_io [OF assms(1)] obtain k' where
    k': "io_step k' [] st st'" "k' \<le> unat len" "ok \<longleftrightarrow> k' = unat len"
        "buffer' = map ucast (take k' (UART_RX_DATA st)) @ drop k' buffer"
    by blast
  from k'(1) have "k' = k" by (simp add: io_step_def k_def)
  with k' show ?thesis by (auto simp: io_step_def)
qed

theorem uart_receive_bytes_timeout_witness:
  "uart_receive_bytes [0, 0] 2 5000 (reset_state [0, 0, 0, 5001 * 50000] [1, 1, 0] [0x41] (\<lambda>a. 0))
     = Some (False, [0x41, 0], reset_state [] [] [] (\<lambda>a. 0)) \<and>
   take 1 [0x41, 0 :: u8] = map ucast (take 1 [0x41 :: u32]) \<and>
   drop 1 [0x41, 0 :: u8] = drop 1 [0, 0]"
proof -
  have run: "uart_receive_bytes [0, 0] 2 5000
               (reset_state [0, 0, 0, 5001 * 50000] [1, 1, 0] [0x41] (\<lambda>a. 0))
             = Some (False, [0x41, 0], reset_state [] [] [] (\<lambda>a. 0))"
    by code_simp
  from uart_receive_bytes_timeout [OF run] run show ?thesis
    by (simp add: reset_state_def)
qed

section \<open>Properties of the validation of the resident image\<close>


lemmas image_eval = read_header_def read_u32_def memory_of_def bytes_of_header_def
  bytes_of_u32_def payload_bytes_def APP_START_ADDR_def BOOT_MAGIC_def MAX_APP_SIZE_def
  sizeof_firmware_header_t_def




text \<open>
  C9. \<^verbatim>\<open>verify_application\<close> does not ask for a size of at least the 20 bytes of the
  header. Where the magic matches and the size is below 20, the size check passes, the
  length handed to \<^verbatim>\<open>crc32_calculate\<close> is \<open>size - 20\<close> in 32-bit unsigned arithmetic,
  which is \<open>2^32 - 20 + size\<close>, and the verdict is that of the CRC comparison alone.
\<close>

theorem verify_application_size_below_header:
  fixes st :: state and addr :: u32
  defines "h \<equiv> read_header (memory st) addr"
  assumes "magic h = BOOT_MAGIC" and "size_hdr h < sizeof_firmware_header_t"
  shows "size_hdr h \<le> MAX_APP_SIZE \<and>
     unat (size_hdr h - sizeof_firmware_header_t) = 2 ^ 32 - 20 + unat (size_hdr h) \<and>
     verify_application addr st =
       (case crc32_calculate (\<lambda>i. memory st (addr + sizeof_firmware_header_t + of_nat i))
               (size_hdr h - sizeof_firmware_header_t) st of
          (calc_crc, st1) \<Rightarrow>
            if calc_crc \<noteq> crc32 h then
              do { st2 \<leftarrow> uart_puts ''CRC check failed - Expected: '' st1;
                   st3 \<leftarrow> uart_put_hex (crc32 h) st2;
                   st4 \<leftarrow> uart_puts '', Calculated: '' st3;
                   st5 \<leftarrow> uart_put_hex calc_crc st4;
                   st6 \<leftarrow> uart_puts CRLF st5;
                   Some (False, st6) }
            else Some (True, st1)) \<and>
     (\<forall>ok st'. table_inv st \<and> verify_application addr st = Some (ok, st') \<longrightarrow>
        (ok \<longleftrightarrow> crc32_ref (payload_bytes (memory st) addr (size_hdr h - sizeof_firmware_header_t))
                 = crc32 h))"
proof -
  from assms(3) have lt: "unat (size_hdr h) < 20"
    by (simp add: word_less_nat_alt sizeof_firmware_header_t_def)
  then have le: "size_hdr h \<le> MAX_APP_SIZE"
    by (simp add: word_le_nat_alt MAX_APP_SIZE_def)
  have "unat (size_hdr h - 20) = (unat (size_hdr h) + (2 ^ 32 - 20)) mod 2 ^ 32"
    using lt by (simp add: unat_sub_if')
  with lt have wrap: "unat (size_hdr h - sizeof_firmware_header_t) = 2 ^ 32 - 20 + unat (size_hdr h)"
    by (simp add: sizeof_firmware_header_t_def)
  have eq: "verify_application addr st =
       (case crc32_calculate (\<lambda>i. memory st (addr + sizeof_firmware_header_t + of_nat i))
               (size_hdr h - sizeof_firmware_header_t) st of
          (calc_crc, st1) \<Rightarrow>
            if calc_crc \<noteq> crc32 h then
              do { st2 \<leftarrow> uart_puts ''CRC check failed - Expected: '' st1;
                   st3 \<leftarrow> uart_put_hex (crc32 h) st2;
                   st4 \<leftarrow> uart_puts '', Calculated: '' st3;
                   st5 \<leftarrow> uart_put_hex calc_crc st4;
                   st6 \<leftarrow> uart_puts CRLF st5;
                   Some (False, st6) }
            else Some (True, st1))"
    using assms(2) le
    by (simp add: verify_application_def Let_def h_def [symmetric] not_less [symmetric])
  have v: "ok \<longleftrightarrow> crc32_ref (payload_bytes (memory st) addr (size_hdr h - sizeof_firmware_header_t))
                 = crc32 h"
    if "table_inv st" "verify_application addr st = Some (ok, st')" for ok st'
    using verify_application_cases [OF that, folded h_def] assms(2) le
    by (auto simp: not_less [symmetric] split: if_splits)
  from le wrap eq v show ?thesis by blast
qed

theorem verify_application_size_below_header_witness:
  "magic (read_header (memory_of APP_START_ADDR
       (bytes_of_header \<lparr>magic = BOOT_MAGIC, version = 0, size_hdr = 4, crc32 = 0, reserved = 0\<rparr>))
       APP_START_ADDR) = BOOT_MAGIC \<and>
   size_hdr (read_header (memory_of APP_START_ADDR
       (bytes_of_header \<lparr>magic = BOOT_MAGIC, version = 0, size_hdr = 4, crc32 = 0, reserved = 0\<rparr>))
       APP_START_ADDR) < sizeof_firmware_header_t \<and>
   unat (size_hdr (read_header (memory_of APP_START_ADDR
       (bytes_of_header \<lparr>magic = BOOT_MAGIC, version = 0, size_hdr = 4, crc32 = 0, reserved = 0\<rparr>))
       APP_START_ADDR) - sizeof_firmware_header_t) = 4294967280"
proof -
  let ?h = "\<lparr>magic = BOOT_MAGIC, version = 0, size_hdr = 4, crc32 = 0, reserved = 0\<rparr>"
  let ?m = "memory_of APP_START_ADDR (bytes_of_header ?h)"
  let ?s = "reset_state [] [] [] ?m"
  have h: "read_header ?m APP_START_ADDR = ?h"
    by (simp add: image_eval)
  have m: "memory ?s = ?m" by (simp add: reset_state_def)
  have a: "magic (read_header (memory ?s) APP_START_ADDR) = BOOT_MAGIC"
    by (simp only: m h) simp
  have b: "size_hdr (read_header (memory ?s) APP_START_ADDR) < sizeof_firmware_header_t"
    by (simp only: m h) (simp add: sizeof_firmware_header_t_def)
  from verify_application_size_below_header [OF a b]
  have "unat (size_hdr (read_header (memory ?s) APP_START_ADDR) - sizeof_firmware_header_t)
        = 2 ^ 32 - 20 + unat (size_hdr (read_header (memory ?s) APP_START_ADDR))"
    by (rule conjunct2 [THEN conjunct1])
  then have c: "unat (size_hdr (read_header ?m APP_START_ADDR) - sizeof_firmware_header_t)
        = 4294967280"
    by (simp only: m h) simp
  from a [unfolded m] b [unfolded m] c show ?thesis by (intro conjI)
qed

section \<open>Properties of the update session\<close>





text \<open>
  C2 does not hold of the code. The run below is Scenario A of the specification: a header
  with the right magic, \<^verbatim>\<open>size = 24\<close> and the CRC32 of the four payload bytes DE AD BE EF,
  followed by these four bytes and then silence. \<^verbatim>\<open>receive_firmware\<close> sets
  \<^verbatim>\<open>remaining = header.size\<close>, so it waits for 24 bytes after the header, takes the four
  that come, and ends with a data timeout and \<^verbatim>\<open>false\<close>.
\<close>

theorem receive_firmware_scenario_A:
  "crc32_ref [0xDE, 0xAD, 0xBE, 0xEF] = 0x7C9CA35A \<and>
   map_option (\<lambda>(ok, st'). (ok, UART_RX_DATA st', uart_tx st'))
     (receive_firmware (reset_state (replicate 27 0 @ [5001 * 50000])
        (replicate 192 3 @ replicate 24 2)
        (map ucast (bytes_of_header \<lparr>magic = BOOT_MAGIC, version = 0x00010000, size_hdr = 24,
                                     crc32 = 0x7C9CA35A, reserved = 0\<rparr> @
                    [0xDE, 0xAD, 0xBE, 0xEF])) (\<lambda>a. 0)))
   = Some (False, [],
       ''Waiting for firmware header (30s timeout)...'' @ CRLF @
       ''Firmware version: 0x00010000'' @ CRLF @ ''Size: 0x00000018 bytes'' @ CRLF @
       ''Simulating flash programming...'' @ CRLF @ ''Programming'' @ CRLF @
       ''ERROR: Data timeout'' @ CRLF)"
proof -
  have "crc32_ref [0xDE, 0xAD, 0xBE, 0xEF] = 0x7C9CA35A"
    by (simp add: crc32_ref_eval)
  moreover have "map_option (\<lambda>(ok, st'). (ok, UART_RX_DATA st', uart_tx st'))
     (receive_firmware (reset_state (replicate 27 0 @ [5001 * 50000])
        (replicate 192 3 @ replicate 24 2)
        (map ucast (bytes_of_header \<lparr>magic = BOOT_MAGIC, version = 0x00010000, size_hdr = 24,
                                     crc32 = 0x7C9CA35A, reserved = 0\<rparr> @
                    [0xDE, 0xAD, 0xBE, 0xEF])) (\<lambda>a. 0)))
   = Some (False, [],
       ''Waiting for firmware header (30s timeout)...'' @ CRLF @
       ''Firmware version: 0x00010000'' @ CRLF @ ''Size: 0x00000018 bytes'' @ CRLF @
       ''Simulating flash programming...'' @ CRLF @ ''Programming'' @ CRLF @
       ''ERROR: Data timeout'' @ CRLF)"
    by (simp add: session_eval)
  ultimately show ?thesis by (rule conjI)
qed

text \<open>
  C7 does not hold of the code. In the run below the header announces four bytes, the
  four bytes DE AD BE EF arrive, and the stored CRC 0x12345678 differs from the computed
  one, 0x7C9CA35A. \<^verbatim>\<open>receive_firmware\<close> reports the mismatch by name only: neither number
  is sent. (\<^verbatim>\<open>verify_application\<close> sends both.)
\<close>

theorem receive_firmware_crc_mismatch_report:
  "crc32_ref [0xDE, 0xAD, 0xBE, 0xEF] = 0x7C9CA35A \<and>
   map_option (\<lambda>(ok, st'). (ok, UART_RX_DATA st', uart_tx st'))
     (receive_firmware (reset_state (replicate 26 0) (replicate 222 3)
        (map ucast (bytes_of_header \<lparr>magic = BOOT_MAGIC, version = 0x00010000, size_hdr = 4,
                                     crc32 = 0x12345678, reserved = 0\<rparr> @
                    [0xDE, 0xAD, 0xBE, 0xEF])) (\<lambda>a. 0)))
   = Some (False, [],
       ''Waiting for firmware header (30s timeout)...'' @ CRLF @
       ''Firmware version: 0x00010000'' @ CRLF @ ''Size: 0x00000004 bytes'' @ CRLF @
       ''Simulating flash programming...'' @ CRLF @ ''Programming. done'' @ CRLF @
       ''ERROR: CRC mismatch!'' @ CRLF)"
proof -
  have "crc32_ref [0xDE, 0xAD, 0xBE, 0xEF] = 0x7C9CA35A"
    by (simp add: crc32_ref_eval)
  moreover have "map_option (\<lambda>(ok, st'). (ok, UART_RX_DATA st', uart_tx st'))
     (receive_firmware (reset_state (replicate 26 0) (replicate 222 3)
        (map ucast (bytes_of_header \<lparr>magic = BOOT_MAGIC, version = 0x00010000, size_hdr = 4,
                                     crc32 = 0x12345678, reserved = 0\<rparr> @
                    [0xDE, 0xAD, 0xBE, 0xEF])) (\<lambda>a. 0)))
   = Some (False, [],
       ''Waiting for firmware header (30s timeout)...'' @ CRLF @
       ''Firmware version: 0x00010000'' @ CRLF @ ''Size: 0x00000004 bytes'' @ CRLF @
       ''Simulating flash programming...'' @ CRLF @ ''Programming. done'' @ CRLF @
       ''ERROR: CRC mismatch!'' @ CRLF)"
    by (simp add: session_eval chunk_DEADBEEF)
  ultimately show ?thesis by (rule conjI)
qed

section \<open>Properties of the boot controller\<close>

























section \<open>The lookup table\<close>

text \<open>
  C4. The table that \<^verbatim>\<open>crc32_init_table\<close> leaves behind has 256 entries, and entry \<open>i\<close>
  is the result of eight steps of the reflected bit-at-a-time CRC32 for the polynomial
  0xEDB88320, started from \<open>i\<close>. Both users of the table build it before they read it.
  From every state in which the table is either not yet built or built correctly (the
  state after reset among them), \<^verbatim>\<open>crc32_calculate\<close> returns the reference CRC32 of the
  bytes \<open>data[0 .. len - 1]\<close>, with the register started at 0xFFFFFFFF and the final complement, and an
  update session that succeeds has found the stored CRC equal to the reference CRC32 of
  the payload bytes it received.
\<close>

theorem crc32_table_standard:
  assumes "table_inv st"
  shows "crc32_table_initialized (crc32_init_table st) \<and>
         length (crc32_table (crc32_init_table st)) = 256 \<and>
         (\<forall>i<256. crc32_table (crc32_init_table st) ! i = crc32_entry_ref i) \<and>
         crc32_calculate data len st = (crc32_ref (map data [0..<unat len]), crc32_init_table st) \<and>
         (\<forall>st'. receive_firmware st = Some (True, st') \<longrightarrow>
            crc32 (header_of_bytes (take 20 (map ucast (UART_RX_DATA st))))
            = crc32_ref (take (unat (size_hdr (header_of_bytes (take 20 (map ucast (UART_RX_DATA st))))))
                          (drop 20 (map ucast (UART_RX_DATA st)))))"
proof -
  have t: "crc32_table (crc32_init_table st) = map crc32_entry_ref [0..<256]"
    by (rule crc32_init_table_table [OF assms])
  have s: "crc32 (header_of_bytes (take 20 (map ucast (UART_RX_DATA st))))
            = crc32_ref (take (unat (size_hdr (header_of_bytes (take 20 (map ucast (UART_RX_DATA st))))))
                          (drop 20 (map ucast (UART_RX_DATA st))))"
    if "receive_firmware st = Some (True, st')" for st'
    using receive_firmware_cases [OF assms that] by (auto split: if_splits)
  from t s show ?thesis
    using crc32_calculate_ref [OF assms, of data len]
    by (simp add: crc32_init_table_initialized)
qed

theorem crc32_table_standard_witness:
  "table_inv (reset_state (replicate 26 0) (replicate 301 3)
      (map ucast (bytes_of_header \<lparr>magic = BOOT_MAGIC, version = 0x00010000, size_hdr = 4,
                                   crc32 = 0x7C9CA35A, reserved = 0\<rparr> @
                  [0xDE, 0xAD, 0xBE, 0xEF])) (\<lambda>a. 0)) \<and>
   crc32_table (crc32_init_table (reset_state (replicate 26 0) (replicate 301 3)
      (map ucast (bytes_of_header \<lparr>magic = BOOT_MAGIC, version = 0x00010000, size_hdr = 4,
                                   crc32 = 0x7C9CA35A, reserved = 0\<rparr> @
                  [0xDE, 0xAD, 0xBE, 0xEF])) (\<lambda>a. 0))) ! 1 = 0x77073096 \<and>
   crc32_ref [0xDE, 0xAD, 0xBE, 0xEF] = 0x7C9CA35A \<and>
   fst (crc32_calculate (\<lambda>i. [0xDE, 0xAD, 0xBE, 0xEF] ! i) 4
     (reset_state (replicate 26 0) (replicate 301 3)
      (map ucast (bytes_of_header \<lparr>magic = BOOT_MAGIC, version = 0x00010000, size_hdr = 4,
                                   crc32 = 0x7C9CA35A, reserved = 0\<rparr> @
                  [0xDE, 0xAD, 0xBE, 0xEF])) (\<lambda>a. 0)))
     = 0x7C9CA35A \<and>
   map_option (\<lambda>(ok, st'). (ok, UART_RX_DATA st', UART_STATUS st'))
     (receive_firmware (reset_state (replicate 26 0) (replicate 301 3)
      (map ucast (bytes_of_header \<lparr>magic = BOOT_MAGIC, version = 0x00010000, size_hdr = 4,
                                   crc32 = 0x7C9CA35A, reserved = 0\<rparr> @
                  [0xDE, 0xAD, 0xBE, 0xEF])) (\<lambda>a. 0)))
     = Some (True, [], [])"
proof -
  let ?s = "reset_state (replicate 26 0) (replicate 301 3)
      (map ucast (bytes_of_header \<lparr>magic = BOOT_MAGIC, version = 0x00010000, size_hdr = 4,
                                   crc32 = 0x7C9CA35A, reserved = 0\<rparr> @
                  [0xDE, 0xAD, 0xBE, 0xEF])) (\<lambda>a. 0)"
  have inv: "table_inv ?s" by (rule table_inv_reset)
  have e: "crc32_entry_ref 1 = 0x77073096"
    by (simp add: crc32_entry_ref_def crc32_bit_ref_def funpow8)
  have u: "map ((!) [0xDE, 0xAD, 0xBE, 0xEF :: u8]) [0..<4] = [0xDE, 0xAD, 0xBE, 0xEF]"
    by (simp add: upt_rec)
  have c: "crc32_ref [0xDE, 0xAD, 0xBE, 0xEF] = 0x7C9CA35A"
    by (simp add: crc32_ref_eval)
  have run: "map_option (\<lambda>(ok, st'). (ok, UART_RX_DATA st', UART_STATUS st'))
               (receive_firmware ?s) = Some (True, [], [])"
    by (simp add: session_eval chunk_DEADBEEF)
  note t = crc32_table_standard [OF inv, of "\<lambda>i. [0xDE, 0xAD, 0xBE, 0xEF] ! i" 4]
  from t have "crc32_calculate (\<lambda>i. [0xDE, 0xAD, 0xBE, 0xEF] ! i) 4 ?s
               = (crc32_ref (map (\<lambda>i. [0xDE, 0xAD, 0xBE, 0xEF] ! i) [0..<unat (4 :: u32)]),
                  crc32_init_table ?s)"
    by blast
  then have f: "fst (crc32_calculate (\<lambda>i. [0xDE, 0xAD, 0xBE, 0xEF] ! i) 4 ?s) = 0x7C9CA35A"
    by (simp add: u c)
  from t have "\<forall>i<256. crc32_table (crc32_init_table ?s) ! i = crc32_entry_ref i"
    by blast
  then have "crc32_table (crc32_init_table ?s) ! 1 = crc32_entry_ref 1"
    by simp
  with e have "crc32_table (crc32_init_table ?s) ! 1 = 0x77073096" by simp
  with inv c f run show ?thesis by (intro conjI)
qed


end
